theory Spec2Isabelle
  imports Main "HOL-Library.Word"
begin

unbundle bit_operations_syntax

section \<open>Bytes, C strings and buffers\<close>

text \<open>
  A byte is an 8-bit word and a buffer is a list of bytes; the terminator of a C string
  is the byte 0. A \<open>const char *\<close> argument is the list of the bytes it points to;
  \<open>strlen\<close> counts the bytes before the first terminator, so bytes after an embedded
  terminator are not part of the C string. \<open>bytes\<close> turns a string literal into its
  bytes.

  The program ends in two ways besides returning: \<open>elf_errx\<close> prints a message and
  exits (\<open>Errx\<close> with the message of the source), and a \<open>memcpy\<close> or a read past the
  end of a buffer has no defined result in C (\<open>OutOfBounds\<close>). What was printed before
  an abort is not kept.
\<close>

type_synonym byte = "8 word"

datatype error = Errx string | OutOfBounds

definition bytes :: "string \<Rightarrow> byte list" where
  "bytes s = map of_char s"

definition strlen :: "byte list \<Rightarrow> nat" where
  "strlen s = length (takeWhile (\<lambda>c. c \<noteq> 0) s)"

text \<open>\<open>calloc(1, n)\<close>: \<open>n\<close> zero bytes.\<close>

definition calloc :: "nat \<Rightarrow> byte list" where
  "calloc n = replicate n 0"

text \<open>
  \<open>memcpy(dst + off, src, n)\<close> on a destination buffer \<open>dst\<close>: the \<open>n\<close> bytes must lie
  inside the destination and inside the source.
\<close>

definition memcpy :: "byte list \<Rightarrow> nat \<Rightarrow> byte list \<Rightarrow> nat \<Rightarrow> error + byte list" where
  "memcpy dst off src n =
     (if off + n \<le> length dst \<and> n \<le> length src
      then Inr (take off dst @ take n src @ drop (off + n) dst)
      else Inl OutOfBounds)"

text \<open>
  Reading the C string that starts at \<open>buf + off\<close> (what \<open>printf("%s")\<close> and \<open>strcmp\<close>
  do): the bytes up to the first terminator, which must be found inside the buffer.
\<close>

definition cstr_at :: "byte list \<Rightarrow> nat \<Rightarrow> error + byte list" where
  "cstr_at buf off =
     (if 0 \<in> set (drop off buf)
      then Inr (takeWhile (\<lambda>c. c \<noteq> 0) (drop off buf))
      else Inl OutOfBounds)"

text \<open>
  A \<open>GElf_Word\<close> in memory: four bytes, least significant first (the header of the note
  is written and read in host byte order by the same program, and the section data has
  type \<open>ELF_T_BYTE\<close>, so no translation happens in between).
\<close>

definition store32 :: "32 word \<Rightarrow> byte list" where
  "store32 w = [ucast w, ucast (drop_bit 8 w), ucast (drop_bit 16 w), ucast (drop_bit 24 w)]"

definition load32 :: "byte list \<Rightarrow> nat \<Rightarrow> error + 32 word" where
  "load32 buf off =
     (if off + 4 \<le> length buf
      then Inr (ucast (buf ! off) OR push_bit 8 (ucast (buf ! (off + 1)))
                OR push_bit 16 (ucast (buf ! (off + 2))) OR push_bit 24 (ucast (buf ! (off + 3))))
      else Inl OutOfBounds)"

section \<open>The note record\<close>

text \<open>
  \<open>struct note { GElf_Word namesz; GElf_Word descsz; GElf_Word type; char buf[]; }\<close>:
  three words at offsets 0, 4 and 8, then the flexible array at offset
  \<open>sizeof(struct note) = 12\<close>.
\<close>

definition sizeof_note :: nat where
  "sizeof_note = 12"

text \<open>\<open>len += (4 - (len & 3)) & 3\<close> on a \<open>GElf_Word\<close>.\<close>

definition pad4 :: "32 word \<Rightarrow> 32 word" where
  "pad4 len = len + ((4 - (len AND 3)) AND 3)"

text \<open>
  Lines 260 to 278 of \<open>add\<close>, which build the note (the specification's Encode). The
  lengths are truncated to \<open>GElf_Word\<close> and padded; \<open>bufsize\<close> is a \<open>size_t\<close> sum of
  three values below \<open>2^32\<close>, so it does not wrap.
\<close>

definition note_bufsize :: "byte list \<Rightarrow> byte list \<Rightarrow> nat" where
  "note_bufsize mediatype data =
     sizeof_note + unat (pad4 (of_nat (strlen mediatype))) + unat (pad4 (of_nat (strlen data)))"

text \<open>
  The buffer is allocated zeroed, \<open>namesz\<close> and \<open>descsz\<close> are stored, then the data and
  the media type are copied in (in this order). \<open>type\<close> is never assigned.
\<close>

definition encode :: "byte list \<Rightarrow> byte list \<Rightarrow> error + byte list" where
  "encode mediatype data =
     (let mtlen = pad4 (of_nat (strlen mediatype));
          dlen = pad4 (of_nat (strlen data));
          buf = calloc (note_bufsize mediatype data)
      in (case memcpy buf 0 (store32 mtlen) 4 of Inl e \<Rightarrow> Inl e | Inr buf1 \<Rightarrow>
         (case memcpy buf1 4 (store32 dlen) 4 of Inl e \<Rightarrow> Inl e | Inr buf2 \<Rightarrow>
         (case memcpy buf2 (sizeof_note + unat mtlen) data (strlen data) of Inl e \<Rightarrow> Inl e
          | Inr buf3 \<Rightarrow> memcpy buf3 sizeof_note mediatype (strlen mediatype)))))"

text \<open>The fields of a note held in a buffer, as \<open>n->namesz\<close>, \<open>n->descsz\<close>, \<open>n->type\<close> read them.\<close>

definition note_namesz :: "byte list \<Rightarrow> error + 32 word" where
  "note_namesz buf = load32 buf 0"

definition note_descsz :: "byte list \<Rightarrow> error + 32 word" where
  "note_descsz buf = load32 buf 4"

definition note_type :: "byte list \<Rightarrow> error + 32 word" where
  "note_type buf = load32 buf 8"

text \<open>
  Lines 120 to 125 of \<open>read_section\<close> (the specification's Decode): the two strings
  that \<open>printf("%s (%s)\n", n->buf + n->namesz, n->buf)\<close> reads from a note, as the
  pair (name region, description region), and the line it prints.
\<close>

definition decode :: "byte list \<Rightarrow> error + (byte list \<times> byte list)" where
  "decode buf =
     (case note_namesz buf of Inl e \<Rightarrow> Inl e | Inr namesz \<Rightarrow>
     (case cstr_at buf (sizeof_note + unat namesz) of Inl e \<Rightarrow> Inl e | Inr desc \<Rightarrow>
     (case cstr_at buf sizeof_note of Inl e \<Rightarrow> Inl e | Inr name \<Rightarrow>
      Inr (name, desc))))"

definition print_note :: "byte list \<Rightarrow> error + byte list" where
  "print_note buf =
     (case decode buf of Inl e \<Rightarrow> Inl e
      | Inr (name, desc) \<Rightarrow> Inr (desc @ bytes '' ('' @ name @ bytes '')'' @ [0x0A]))"

section \<open>The container\<close>

text \<open>
  The ELF descriptor as the program sees it through libelf: the two fields of the ELF
  header that it reads or writes, and the sections. \<open>scns\<close> holds the sections that
  \<open>elf_nextscn\<close> enumerates, in table order: these are the entries 1, 2, ... of the
  section header table (entry 0 is the reserved null entry, which \<open>elf_nextscn\<close> never
  returns). A section has the fields of \<open>GElf_Shdr\<close> that the program touches and its
  list of data descriptors; a data descriptor has the fields of \<open>Elf_Data\<close> that the
  program touches, \<open>d_buf = None\<close> being the null pointer.

  The dirty and layout flags and the two \<open>elf_update\<close> passes belong to the library's
  commit step; the model ends with the descriptor that is committed.
\<close>

record elf_data =
  d_buf :: "byte list option"
  d_size :: nat
  d_off :: "64 word"
  d_type :: "32 word"
  d_version :: "32 word"

record scn =
  sh_name :: "32 word"
  sh_type :: "32 word"
  sh_flags :: "64 word"
  sh_offset :: "64 word"
  sh_size :: "64 word"
  sh_addralign :: "64 word"
  sh_entsize :: "64 word"
  scn_data :: "elf_data list"

record elf =
  e_shoff :: "64 word"
  e_shstrndx :: "16 word"
  scns :: "scn list"

definition SHT_NULL :: "32 word" where "SHT_NULL = 0"
definition SHT_STRTAB :: "32 word" where "SHT_STRTAB = 3"
definition SHT_NOTE :: "32 word" where "SHT_NOTE = 7"
definition SHT_NOBITS :: "32 word" where "SHT_NOBITS = 8"
definition SHF_ALLOC :: "64 word" where "SHF_ALLOC = 2"
definition ELF_T_BYTE :: "32 word" where "ELF_T_BYTE = 0"
definition EV_CURRENT :: "32 word" where "EV_CURRENT = 1"

definition REFERENCE_SECTION_NAME :: "byte list" where
  "REFERENCE_SECTION_NAME = bytes ''.reference''"

subsection \<open>The library calls the program relies on\<close>

text \<open>
  libelf is not part of the repository; these are its calls as its documentation
  describes them, on the descriptor above. \<open>elf_newscn\<close> and \<open>elf_newdata\<close> give a
  zeroed section and a zeroed data descriptor. \<open>gelf_getehdr\<close>, \<open>gelf_getshdr\<close>,
  \<open>gelf_update_shdr\<close>, \<open>gelf_update_ehdr\<close>, \<open>elf_newscn\<close>, \<open>elf_newdata\<close> and
  \<open>calloc\<close> fail only on a broken handle or exhausted memory, which a descriptor
  of this model never is, so their error branches are not reachable here.
\<close>

definition null_scn :: scn where
  "null_scn = \<lparr>sh_name = 0, sh_type = SHT_NULL, sh_flags = 0, sh_offset = 0, sh_size = 0,
               sh_addralign = 0, sh_entsize = 0, scn_data = []\<rparr>"

definition null_data :: elf_data where
  "null_data = \<lparr>d_buf = None, d_size = 0, d_off = 0, d_type = ELF_T_BYTE, d_version = EV_CURRENT\<rparr>"

text \<open>The bytes behind \<open>d_buf\<close>: none behind a null pointer.\<close>

definition buffer_of :: "elf_data \<Rightarrow> byte list" where
  "buffer_of d = (case d_buf d of None \<Rightarrow> [] | Some b \<Rightarrow> b)"

text \<open>\<open>elf_getscn(elf, ndx)\<close>: the section with table index \<open>ndx\<close>.\<close>

definition elf_getscn :: "elf \<Rightarrow> nat \<Rightarrow> scn option" where
  "elf_getscn e ndx =
     (if ndx = 0 then Some null_scn
      else if ndx \<le> length (scns e) then Some (scns e ! (ndx - 1))
      else None)"

text \<open>\<open>elf_getdata(scn, NULL)\<close>: the first data descriptor of the section, if any.\<close>

definition elf_getdata :: "scn \<Rightarrow> elf_data option" where
  "elf_getdata s = (case scn_data s of [] \<Rightarrow> None | d # _ \<Rightarrow> Some d)"

text \<open>
  \<open>elf_strptr(elf, ndx, off)\<close>: the string at offset \<open>off\<close> of the string table in
  section \<open>ndx\<close>. It is null when there is no such section, when the section is not
  of type \<open>SHT_STRTAB\<close>, when the offset is not below the section's size, or when
  the section data holds no terminated string there.
\<close>

definition elf_strptr :: "elf \<Rightarrow> nat \<Rightarrow> nat \<Rightarrow> byte list option" where
  "elf_strptr e ndx off =
     (case elf_getscn e ndx of None \<Rightarrow> None | Some s \<Rightarrow>
        if sh_type s \<noteq> SHT_STRTAB \<or> unat (sh_size s) \<le> off then None
        else (case elf_getdata s of None \<Rightarrow> None | Some d \<Rightarrow>
               (case d_buf d of None \<Rightarrow> None | Some buf \<Rightarrow>
                 (case cstr_at (take (d_size d) buf) off of Inl _ \<Rightarrow> None
                  | Inr str \<Rightarrow> Some str))))"

text \<open>The display name of a section: \<open>elf_strptr(elf, ehdr.e_shstrndx, shdr.sh_name)\<close>.\<close>

definition scn_name :: "elf \<Rightarrow> scn \<Rightarrow> byte list option" where
  "scn_name e s = elf_strptr e (unat (e_shstrndx e)) (unat (sh_name s))"

section \<open>The string table: \<open>find_or_add_strtab_ref\<close>\<close>

text \<open>
  Lines 187 to 207: the loop over the sections. It returns the \<open>sh_name\<close> of the first
  section whose name is the reserved one, \<open>None\<close> when the loop runs to its end, and
  aborts at the first section whose name cannot be read.
\<close>

fun find_ref :: "elf \<Rightarrow> scn list \<Rightarrow> error + 32 word option" where
  "find_ref e [] = Inr None"
| "find_ref e (s # ss) =
     (case scn_name e s of
        None \<Rightarrow> Inl (Errx ''reading section name'')
      | Some nm \<Rightarrow> if nm = REFERENCE_SECTION_NAME then Inr (Some (sh_name s)) else find_ref e ss)"

text \<open>
  Lines 211 to 252: the table is the first data descriptor of section \<open>e_shstrndx\<close>.
  \<open>offset\<close> is \<open>d_size\<close> truncated to \<open>GElf_Word\<close>; \<open>new_size\<close> is a \<open>size_t\<close>. The old
  contents and then the name with its terminator are copied into a zeroed buffer,
  which replaces the old one; the section's \<open>sh_size\<close> becomes the new \<open>d_size\<close>.
\<close>

definition extend_strtab :: "elf \<Rightarrow> error + (32 word \<times> elf)" where
  "extend_strtab e =
     (case elf_getscn e (unat (e_shstrndx e)) of
        None \<Rightarrow> Inl (Errx ''reading string table'')
      | Some s \<Rightarrow>
     (case elf_getdata s of
        None \<Rightarrow> Inl (Errx ''getting data descriptor for string table'')
      | Some str_data \<Rightarrow>
     (let offset = (of_nat (d_size str_data) :: 32 word);
          new_size = unat offset + strlen REFERENCE_SECTION_NAME + 1;
          new_table = calloc new_size
      in (case memcpy new_table 0 (buffer_of str_data) (d_size str_data) of
            Inl err \<Rightarrow> Inl err | Inr t1 \<Rightarrow>
         (case memcpy t1 (unat offset) (REFERENCE_SECTION_NAME @ [0])
                   (strlen REFERENCE_SECTION_NAME + 1) of Inl err \<Rightarrow> Inl err | Inr t2 \<Rightarrow>
          (let str_data' = str_data\<lparr>d_buf := Some t2, d_size := new_size\<rparr>;
               s' = s\<lparr>scn_data := str_data' # tl (scn_data s), sh_size := of_nat new_size\<rparr>
           in Inr (offset, e\<lparr>scns := (scns e)[unat (e_shstrndx e) - 1 := s']\<rparr>)))))))"

definition find_or_add_strtab_ref :: "elf \<Rightarrow> error + (32 word \<times> elf)" where
  "find_or_add_strtab_ref e =
     (case find_ref e (scns e) of
        Inl err \<Rightarrow> Inl err
      | Inr (Some off) \<Rightarrow> Inr (off, e)
      | Inr None \<Rightarrow> extend_strtab e)"

section \<open>The append offset\<close>

text \<open>
  Lines 292 to 309 of \<open>add\<close>: \<open>last_offset\<close> over the sections, in \<open>GElf_Off\<close>
  arithmetic (64 bits, unsigned, wrapping).
\<close>

fun last_offset_loop :: "scn list \<Rightarrow> 64 word \<Rightarrow> 64 word" where
  "last_offset_loop [] last_offset = last_offset"
| "last_offset_loop (s # ss) last_offset =
     last_offset_loop ss
       (if sh_type s \<noteq> SHT_NOBITS \<and> last_offset < sh_offset s + sh_size s
        then sh_offset s + sh_size s else last_offset)"

definition compute_append_offset :: "elf \<Rightarrow> 64 word" where
  "compute_append_offset e = last_offset_loop (scns e) 0"

section \<open>Adding a reference: \<open>add\<close>\<close>

text \<open>
  The note is built, the name offset is found or added, the append offset is computed
  on the descriptor that \<open>find_or_add_strtab_ref\<close> left, a new section with one data
  descriptor is appended (lines 311 to 345), and \<open>e_shoff\<close> is set (line 359).
\<close>

definition add :: "elf \<Rightarrow> byte list \<Rightarrow> byte list \<Rightarrow> error + elf" where
  "add e mediatype data =
     (case encode mediatype data of Inl err \<Rightarrow> Inl err | Inr buf \<Rightarrow>
     (case find_or_add_strtab_ref e of Inl err \<Rightarrow> Inl err | Inr (name_off, e1) \<Rightarrow>
     (let bufsize = note_bufsize mediatype data;
          last_offset = compute_append_offset e1;
          ref_data = null_data\<lparr>d_off := 0, d_buf := Some buf, d_size := bufsize,
                               d_type := ELF_T_BYTE, d_version := EV_CURRENT\<rparr>;
          ref_scn = null_scn\<lparr>scn_data := [ref_data], sh_entsize := 0, sh_flags := SHF_ALLOC,
                             sh_name := name_off, sh_type := SHT_NOTE,
                             sh_offset := last_offset, sh_size := of_nat bufsize,
                             sh_addralign := 1\<rparr>
      in Inr (e1\<lparr>scns := scns e1 @ [ref_scn], e_shoff := last_offset + of_nat bufsize\<rparr>))))"

section \<open>Listing the references: \<open>read_section\<close> and \<open>list\<close>\<close>

text \<open>
  Lines 117 to 126: every data descriptor of the section, in order; one with a null
  buffer prints nothing.
\<close>

fun print_blocks :: "elf_data list \<Rightarrow> error + byte list list" where
  "print_blocks [] = Inr []"
| "print_blocks (d # ds) =
     (case d_buf d of
        None \<Rightarrow> print_blocks ds
      | Some buf \<Rightarrow>
         (case print_note buf of Inl err \<Rightarrow> Inl err | Inr line \<Rightarrow>
         (case print_blocks ds of Inl err \<Rightarrow> Inl err | Inr rest \<Rightarrow> Inr (line # rest))))"

text \<open>\<open>read_section\<close>: the value it returns and the lines it prints.\<close>

definition read_section :: "elf \<Rightarrow> scn \<Rightarrow> error + (bool \<times> byte list list)" where
  "read_section e cursor =
     (case scn_name e cursor of
        None \<Rightarrow> Inr (False, [])
      | Some nm \<Rightarrow>
          if nm \<noteq> REFERENCE_SECTION_NAME then Inr (True, [])
          else (case print_blocks (scn_data cursor) of Inl err \<Rightarrow> Inl err
                | Inr out \<Rightarrow> Inr (True, out)))"

text \<open>
  Lines 156 to 162 of \<open>list\<close>: the loop over the sections, with the lines printed.
  The function is called \<open>list_refs\<close> here, \<open>list\<close> being the name of a type.
\<close>

fun list_loop :: "elf \<Rightarrow> scn list \<Rightarrow> error + byte list list" where
  "list_loop e [] = Inr []"
| "list_loop e (cursor # rest) =
     (case read_section e cursor of
        Inl err \<Rightarrow> Inl err
      | Inr (ok, out) \<Rightarrow>
          if \<not> ok then Inl (Errx ''reading section'')
          else (case list_loop e rest of Inl err \<Rightarrow> Inl err | Inr out' \<Rightarrow> Inr (out @ out')))"

definition list_refs :: "elf \<Rightarrow> error + byte list list" where
  "list_refs e = list_loop e (scns e)"

section \<open>The vocabulary of the specification\<close>

text \<open>The specification's \<open>round_up(n, k)\<close>: the least multiple of \<open>k\<close> that is at least \<open>n\<close>.\<close>

definition round_up :: "nat \<Rightarrow> nat \<Rightarrow> nat" where
  "round_up n k = ((n + k - 1) div k) * k"

text \<open>
  A section is byte-bearing when its type is not \<open>SHT_NOBITS\<close>. Its occupied range is
  \<open>[sh_offset, sh_offset + sh_size)\<close>, as file positions (natural numbers); two
  ranges overlap when they share a position.
\<close>

definition byte_bearing :: "scn \<Rightarrow> bool" where
  "byte_bearing s = (sh_type s \<noteq> SHT_NOBITS)"

definition scn_start :: "scn \<Rightarrow> nat" where
  "scn_start s = unat (sh_offset s)"

definition scn_end :: "scn \<Rightarrow> nat" where
  "scn_end s = unat (sh_offset s) + unat (sh_size s)"

definition overlap :: "scn \<Rightarrow> scn \<Rightarrow> bool" where
  "overlap a b = (max (scn_start a) (scn_start b) < min (scn_end a) (scn_end b))"

text \<open>The invariant of the data model: no two byte-bearing sections overlap.\<close>

fun no_overlap :: "scn list \<Rightarrow> bool" where
  "no_overlap [] = True"
| "no_overlap (s # ss) =
     (list_all (\<lambda>t. byte_bearing s \<and> byte_bearing t \<longrightarrow> \<not> overlap s t) ss \<and> no_overlap ss)"

text \<open>
  Some section is named by the reserved identifier; every section name can be read
  (no call of \<open>elf_strptr\<close> in a loop over the sections fails).
\<close>

definition uses_ref :: "elf \<Rightarrow> bool" where
  "uses_ref e = list_ex (\<lambda>s. scn_name e s = Some REFERENCE_SECTION_NAME) (scns e)"

definition names_readable :: "elf \<Rightarrow> bool" where
  "names_readable e = list_all (\<lambda>s. scn_name e s \<noteq> None) (scns e)"

text \<open>The data descriptor of the section-name string table, and the bytes it holds.\<close>

definition strtab_data :: "elf \<Rightarrow> elf_data option" where
  "strtab_data e =
     (case elf_getscn e (unat (e_shstrndx e)) of None \<Rightarrow> None | Some s \<Rightarrow> elf_getdata s)"

definition data_bytes :: "elf_data \<Rightarrow> byte list" where
  "data_bytes d = take (d_size d) (buffer_of d)"

text \<open>A data descriptor is valid when its \<open>d_size\<close> bytes lie inside its buffer.\<close>

definition data_valid :: "elf_data \<Rightarrow> bool" where
  "data_valid d = (d_size d \<le> length (buffer_of d))"

text \<open>
  What appending the reserved name makes of the table's data descriptor and of its
  section, and the section that \<open>add\<close> creates, written out.
\<close>

definition grown_data :: "elf_data \<Rightarrow> elf_data" where
  "grown_data d = d\<lparr>d_buf := Some (data_bytes d @ REFERENCE_SECTION_NAME @ [0]),
                     d_size := d_size d + length REFERENCE_SECTION_NAME + 1\<rparr>"

definition grown_scn :: "scn \<Rightarrow> elf_data \<Rightarrow> scn" where
  "grown_scn s d = s\<lparr>scn_data := grown_data d # tl (scn_data s),
                     sh_size := of_nat (d_size d + length REFERENCE_SECTION_NAME + 1)\<rparr>"

definition reference_scn :: "32 word \<Rightarrow> 64 word \<Rightarrow> byte list \<Rightarrow> nat \<Rightarrow> scn" where
  "reference_scn name_off last_offset buf bufsize =
     \<lparr>sh_name = name_off, sh_type = SHT_NOTE, sh_flags = SHF_ALLOC, sh_offset = last_offset,
      sh_size = of_nat bufsize, sh_addralign = 1, sh_entsize = 0,
      scn_data = [\<lparr>d_buf = Some buf, d_size = bufsize, d_off = 0, d_type = ELF_T_BYTE,
                   d_version = EV_CURRENT\<rparr>]\<rparr>"

text \<open>
  The lines \<open>list\<close> is specified to print for one data descriptor and for one section:
  \<open>description (name)\<close> for a descriptor with a buffer, nothing for a null one.
\<close>

definition block_lines :: "elf_data \<Rightarrow> byte list list" where
  "block_lines d =
     (case d_buf d of None \<Rightarrow> []
      | Some buf \<Rightarrow>
         (case decode buf of Inl _ \<Rightarrow> []
          | Inr (name, desc) \<Rightarrow> [desc @ bytes '' ('' @ name @ bytes '')'' @ [0x0A]]))"

definition section_lines :: "elf \<Rightarrow> scn \<Rightarrow> byte list list" where
  "section_lines e s =
     (if scn_name e s = Some REFERENCE_SECTION_NAME then concat (map block_lines (scn_data s))
      else [])"

text \<open>Every note of every section named by the reserved identifier can be read in full.\<close>

definition block_readable :: "elf_data \<Rightarrow> bool" where
  "block_readable d =
     (case d_buf d of None \<Rightarrow> True
      | Some buf \<Rightarrow> (case decode buf of Inl _ \<Rightarrow> False | Inr _ \<Rightarrow> True))"

definition notes_readable :: "elf \<Rightarrow> bool" where
  "notes_readable e =
     list_all (\<lambda>s. scn_name e s = Some REFERENCE_SECTION_NAME \<longrightarrow>
                 list_all block_readable (scn_data s))
              (scns e)"

section \<open>Example containers\<close>

text \<open>
  A code section of 16 bytes and a section-name string table holding \<open>.shstrtab\<close> and
  \<open>.text\<close>, placed at given file offsets.
\<close>

definition SHT_PROGBITS :: "32 word" where "SHT_PROGBITS = 1"

definition shstrtab_bytes :: "byte list" where
  "shstrtab_bytes = [0] @ bytes ''.shstrtab'' @ [0] @ bytes ''.text'' @ [0]"

definition bytes_data :: "byte list \<Rightarrow> elf_data" where
  "bytes_data b = \<lparr>d_buf = Some b, d_size = length b, d_off = 0, d_type = ELF_T_BYTE,
                    d_version = EV_CURRENT\<rparr>"

definition text_scn :: "64 word \<Rightarrow> scn" where
  "text_scn off = \<lparr>sh_name = 11, sh_type = SHT_PROGBITS, sh_flags = 6, sh_offset = off,
                   sh_size = 16, sh_addralign = 16, sh_entsize = 0,
                   scn_data = [bytes_data (replicate 16 0x90)]\<rparr>"

definition strtab_scn :: "64 word \<Rightarrow> byte list \<Rightarrow> scn" where
  "strtab_scn off tbl = \<lparr>sh_name = 1, sh_type = SHT_STRTAB, sh_flags = 0, sh_offset = off,
                         sh_size = of_nat (length tbl), sh_addralign = 1, sh_entsize = 0,
                         scn_data = [bytes_data tbl]\<rparr>"

text \<open>The string table is the last section of the file.\<close>

definition elf_tail :: elf where
  "elf_tail = \<lparr>e_shoff = 104, e_shstrndx = 2,
               scns = [text_scn 64, strtab_scn 80 shstrtab_bytes]\<rparr>"

text \<open>The string table is followed at once by another section.\<close>

definition elf_mid :: elf where
  "elf_mid = \<lparr>e_shoff = 104, e_shstrndx = 1,
              scns = [strtab_scn 64 shstrtab_bytes, text_scn 81]\<rparr>"

text \<open>
  The string table holds the bytes of the reserved name (at offset 11), but no section
  is named by it.
\<close>

definition elf_orphan :: elf where
  "elf_orphan = \<lparr>e_shoff = 88, e_shstrndx = 1,
                 scns = [strtab_scn 64 ([0] @ bytes ''.shstrtab'' @ [0] @ bytes ''.reference'' @ [0])]\<rparr>"

text \<open>A container that already holds one reference section, with the note of \<open>hello (text/plain)\<close>.\<close>

definition elf_ref :: elf where
  "elf_ref = \<lparr>e_shoff = 140, e_shstrndx = 2,
              scns = [text_scn 64,
                      strtab_scn 80 (shstrtab_bytes @ bytes ''.reference'' @ [0]),
                      reference_scn 17 108
                        ([12, 0, 0, 0, 8, 0, 0, 0, 0, 0, 0, 0] @ bytes ''text/plain'' @ [0, 0]
                          @ bytes ''hello'' @ [0, 0, 0]) 32]\<rparr>"

text \<open>What \<open>add\<close> makes of the container whose string table is followed by another section.\<close>

definition elf_mid_added :: elf where
  "elf_mid_added = \<lparr>e_shoff = 129, e_shstrndx = 1,
                    scns = [strtab_scn 64 (shstrtab_bytes @ bytes ''.reference'' @ [0]),
                            text_scn 81,
                            reference_scn 17 97
                              ([12, 0, 0, 0, 8, 0, 0, 0, 0, 0, 0, 0] @ bytes ''text/plain'' @ [0, 0]
                                @ bytes ''hello'' @ [0, 0, 0]) 32]\<rparr>"

text \<open>What \<open>find_or_add_strtab_ref\<close> makes of the container with the unused name.\<close>

definition elf_orphan_grown :: elf where
  "elf_orphan_grown = \<lparr>e_shoff = 88, e_shstrndx = 1,
                       scns = [strtab_scn 64 ([0] @ bytes ''.shstrtab'' @ [0] @ bytes ''.reference'' @ [0]
                                               @ bytes ''.reference'' @ [0])]\<rparr>"

text \<open>A container whose only section holds no file bytes.\<close>

definition elf_nobits :: elf where
  "elf_nobits = \<lparr>e_shoff = 64, e_shstrndx = 0, scns = [(text_scn 64)\<lparr>sh_type := SHT_NOBITS\<rparr>]\<rparr>"

text \<open>
  The string table is followed by a section whose header gives a size so large that
  \<open>sh_offset + sh_size\<close> passes \<open>2^64\<close>: the 64-bit sum is 50. And what \<open>add\<close> makes
  of this container.
\<close>

definition elf_wrap :: elf where
  "elf_wrap = \<lparr>e_shoff = 200, e_shstrndx = 1,
               scns = [strtab_scn 64 shstrtab_bytes,
                       (text_scn 100)\<lparr>sh_size := 18446744073709551566\<rparr>]\<rparr>"

definition elf_wrap_added :: elf where
  "elf_wrap_added = \<lparr>e_shoff = 124, e_shstrndx = 1,
                     scns = [strtab_scn 64 (shstrtab_bytes @ bytes ''.reference'' @ [0]),
                             (text_scn 100)\<lparr>sh_size := 18446744073709551566\<rparr>,
                             reference_scn 17 92
                               ([12, 0, 0, 0, 8, 0, 0, 0, 0, 0, 0, 0] @ bytes ''text/plain'' @ [0, 0]
                                 @ bytes ''hello'' @ [0, 0, 0]) 32]\<rparr>"

section \<open>Facts about the note record\<close>

lemma and3: "(of_nat n :: 32 word) AND 3 = of_nat (n mod 4)"
proof -
  have "(of_nat n :: 32 word) AND mask 2 = of_nat (take_bit 2 n)"
    by (simp add: of_nat_take_bit flip: take_bit_eq_mask)
  then show ?thesis by (simp add: take_bit_eq_mod mask_eq_exp_minus_1)
qed

lemma pad4_round_up: "pad4 (of_nat n) = (of_nat (round_up n 4) :: 32 word)"
proof -
  have m: "n mod 4 = 0 \<or> n mod 4 = 1 \<or> n mod 4 = 2 \<or> n mod 4 = 3" by arith
  then show ?thesis
  proof (elim disjE)
    assume a: "n mod 4 = 0"
    then have "round_up n 4 = n" by (simp add: round_up_def; arith)
    with a show ?thesis by (simp add: pad4_def and3)
  next
    assume a: "n mod 4 = 1"
    then have "round_up n 4 = n + 3" by (simp add: round_up_def; arith)
    with a show ?thesis by (simp add: pad4_def and3)
  next
    assume a: "n mod 4 = 2"
    then have "round_up n 4 = n + 2" by (simp add: round_up_def; arith)
    with a show ?thesis by (simp add: pad4_def and3)
  next
    assume a: "n mod 4 = 3"
    then have "round_up n 4 = n + 1" by (simp add: round_up_def; arith)
    with a show ?thesis by (simp add: pad4_def and3)
  qed
qed

lemma unat_pad4: "unat (pad4 (of_nat n)) = round_up n 4 mod 2 ^ 32"
  by (simp add: pad4_round_up unat_of_nat)

lemma pad4_of_nat:
  assumes "round_up n 4 < 2 ^ 32"
  shows "unat (pad4 (of_nat n)) = round_up n 4"
  using assms by (simp add: unat_pad4)

lemma strlen_le: "strlen s \<le> length s"
  by (simp add: strlen_def length_takeWhile_le)

lemma strlen_no_nul: "0 \<notin> set s \<Longrightarrow> strlen s = length s"
  unfolding strlen_def by (induction s) auto

lemma take_strlen: "take (strlen s) s = takeWhile (\<lambda>c. c \<noteq> 0) s"
  unfolding strlen_def by (induction s) auto

lemma length_store32: "length (store32 w) = 4"
  by (simp add: store32_def)

lemma memcpy_fill:
  assumes "n \<le> length src" and "n \<le> k" and "off = length pre"
  shows "memcpy (pre @ replicate k 0 @ post) off src n
         = Inr (pre @ take n src @ replicate (k - n) 0 @ post)"
  using assms by (simp add: memcpy_def)

lemma encode_chain:
  fixes M D sm sd :: nat
  assumes sm: "sm \<le> M" "sm \<le> length mediatype"
      and sd: "sd \<le> D" "sd \<le> length data"
  shows "(case memcpy (calloc (sizeof_note + M + D)) 0 (store32 mtlen) 4 of
            Inl e \<Rightarrow> Inl e
          | Inr buf1 \<Rightarrow>
           (case memcpy buf1 4 (store32 dlen) 4 of
              Inl e \<Rightarrow> Inl e
            | Inr buf2 \<Rightarrow>
             (case memcpy buf2 (sizeof_note + M) data sd of
                Inl e \<Rightarrow> Inl e
              | Inr buf3 \<Rightarrow> memcpy buf3 sizeof_note mediatype sm)))
         = Inr (store32 mtlen @ store32 dlen @ replicate 4 0 @ take sm mediatype
                @ replicate (M - sm) 0 @ take sd data @ replicate (D - sd) 0)"
proof -
  have b1: "memcpy (calloc (sizeof_note + M + D)) 0 (store32 mtlen) 4
            = Inr (store32 mtlen @ replicate (8 + M + D) 0)"
    using memcpy_fill [of 4 "store32 mtlen" "12 + M + D" 0 "[]" "[]"]
    by (simp add: calloc_def sizeof_note_def length_store32)
  have e: "8 + M + D - 4 = 4 + M + D" by arith
  have "memcpy (store32 mtlen @ replicate (8 + M + D) 0 @ []) 4 (store32 dlen) 4
        = Inr (store32 mtlen @ take 4 (store32 dlen) @ replicate (8 + M + D - 4) 0 @ [])"
    by (rule memcpy_fill) (simp_all add: length_store32)
  then have b2: "memcpy (store32 mtlen @ replicate (8 + M + D) 0) 4 (store32 dlen) 4
            = Inr (store32 mtlen @ store32 dlen @ replicate (4 + M + D) 0)"
    by (simp only: e append_Nil2 take_all length_store32 order_refl)
  have r1: "replicate (4 + M + D) (0::byte) = replicate (4 + M) 0 @ replicate D 0"
    by (simp only: replicate_add)
  have r2: "replicate (4 + M) (0::byte) = replicate 4 0 @ replicate M 0"
    by (simp only: replicate_add)
  have b3: "memcpy (store32 mtlen @ store32 dlen @ replicate (4 + M) 0 @ replicate D 0)
              (sizeof_note + M) data sd
            = Inr (store32 mtlen @ store32 dlen @ replicate (4 + M) 0
                   @ take sd data @ replicate (D - sd) 0)"
    using memcpy_fill [of sd data D "sizeof_note + M"
        "store32 mtlen @ store32 dlen @ replicate (4 + M) 0" "[]"] sd
    by (simp add: length_store32 sizeof_note_def)
  have b4: "memcpy (store32 mtlen @ store32 dlen @ replicate 4 0 @ replicate M 0
                   @ take sd data @ replicate (D - sd) 0) sizeof_note mediatype sm
            = Inr (store32 mtlen @ store32 dlen @ replicate 4 0 @ take sm mediatype
                   @ replicate (M - sm) 0 @ take sd data @ replicate (D - sd) 0)"
    using memcpy_fill [of sm mediatype M sizeof_note
        "store32 mtlen @ store32 dlen @ replicate 4 0" "take sd data @ replicate (D - sd) 0"] sm
    by (simp add: length_store32 sizeof_note_def)
  show ?thesis
    apply (simp only: b1 sum.case)
    apply (simp only: b2 sum.case r1)
    apply (simp only: b3 sum.case)
    apply (simp only: r2 append_assoc b4)
    done
qed

lemma encode_layout:
  assumes m: "strlen mediatype \<le> unat (pad4 (of_nat (strlen mediatype)))"
      and d: "strlen data \<le> unat (pad4 (of_nat (strlen data)))"
  shows "encode mediatype data =
         Inr (store32 (pad4 (of_nat (strlen mediatype))) @ store32 (pad4 (of_nat (strlen data)))
              @ replicate 4 0
              @ take (strlen mediatype) mediatype
              @ replicate (unat (pad4 (of_nat (strlen mediatype))) - strlen mediatype) 0
              @ take (strlen data) data
              @ replicate (unat (pad4 (of_nat (strlen data))) - strlen data) 0)"
  unfolding encode_def Let_def note_bufsize_def
  by (rule encode_chain [OF m strlen_le d strlen_le])

lemma load32_store32: "off = length pre \<Longrightarrow> load32 (pre @ store32 w @ post) off = Inr w"
  apply (simp add: load32_def store32_def nth_append)
  apply (rule bit_word_eqI)
  apply (auto simp add: bit_simps)
  subgoal for n by (cases "24 \<le> n") simp_all
  done

lemma load32_zero: "off = length pre \<Longrightarrow> load32 (pre @ replicate 4 0 @ post) off = Inr 0"
  by (simp add: load32_def nth_append)

lemma round_up_ge: "n \<le> round_up n 4"
  by (simp add: round_up_def; arith)

lemma round_up_dvd: "4 dvd round_up n 4"
  by (simp add: round_up_def)

lemma strlen_le_pad4:
  "round_up (strlen s) 4 < 2 ^ 32 \<Longrightarrow> strlen s \<le> unat (pad4 (of_nat (strlen s)))"
  by (simp add: pad4_of_nat round_up_ge)

lemma length_take_strlen: "length (take (strlen s) s) = strlen s"
  by (simp add: strlen_le)

lemma encode_in_range:
  assumes m: "round_up (strlen mediatype) 4 < 2 ^ 32"
      and d: "round_up (strlen data) 4 < 2 ^ 32"
  shows "encode mediatype data =
         Inr (store32 (pad4 (of_nat (strlen mediatype))) @ store32 (pad4 (of_nat (strlen data)))
              @ replicate 4 0
              @ take (strlen mediatype) mediatype
              @ replicate (round_up (strlen mediatype) 4 - strlen mediatype) 0
              @ take (strlen data) data
              @ replicate (round_up (strlen data) 4 - strlen data) 0)"
  using encode_layout [OF strlen_le_pad4 [OF m] strlen_le_pad4 [OF d]]
  by (simp only: pad4_of_nat [OF m] pad4_of_nat [OF d])

lemma nth_pad:
  assumes "length pre = p" and "length s = n" and "n \<le> i" and "i < r"
  shows "(pre @ s @ replicate (r - n) (0::byte) @ post) ! (p + i) = 0"
  using assms by (auto simp add: nth_append)


lemma memcpy_keeps_prefix:
  assumes "memcpy dst off src n = Inr r" and "k \<le> off"
  shows "take k r = take k dst \<and> length r = length dst"
  using assms by (auto simp add: memcpy_def split: if_splits)

lemma load32_cong_take:
  assumes "take (off + 4) a = take (off + 4) b" and "length a = length b"
  shows "load32 a off = load32 b off"
proof -
  have "a ! i = b ! i" if "i < off + 4" for i
    using that assms(1) by (metis nth_take)
  then show ?thesis
    using assms(2) by (simp add: load32_def)
qed

lemma encode_type_untouched:
  assumes "encode mediatype data = Inr buf"
  shows "note_type buf = Inr 0"
proof -
  let ?mtlen = "pad4 (of_nat (strlen mediatype))" and ?dlen = "pad4 (of_nat (strlen data))"
  let ?n = "note_bufsize mediatype data"
  from assms obtain buf1 buf2 buf3 where
    s1: "memcpy (calloc ?n) 0 (store32 ?mtlen) 4 = Inr buf1" and
    s2: "memcpy buf1 4 (store32 ?dlen) 4 = Inr buf2" and
    s3: "memcpy buf2 (sizeof_note + unat ?mtlen) data (strlen data) = Inr buf3" and
    s4: "memcpy buf3 sizeof_note mediatype (strlen mediatype) = Inr buf"
    by (auto simp add: encode_def Let_def split: sum.splits)
  have n: "12 \<le> ?n" by (simp add: note_bufsize_def sizeof_note_def)
  have b1: "buf1 = store32 ?mtlen @ replicate (?n - 4) 0"
    using s1 n by (auto simp add: memcpy_def calloc_def length_store32 split: if_splits)
  have b2: "buf2 = store32 ?mtlen @ store32 ?dlen @ replicate 4 0 @ replicate (?n - 12) 0"
  proof -
    have "?n - 4 - 4 = 4 + (?n - 12)" using n by arith
    then have "replicate (?n - 4 - 4) (0::byte) = replicate 4 0 @ replicate (?n - 12) 0"
      by (simp only: replicate_add)
    then show ?thesis
      using s2 n unfolding b1
      by (auto simp add: memcpy_def length_store32 split: if_splits)
  qed
  have t2: "load32 buf2 8 = Inr 0"
    unfolding b2
    using load32_zero [of 8 "store32 ?mtlen @ store32 ?dlen" "replicate (?n - 12) 0"]
    by (simp add: length_store32)
  have k3: "take 12 buf3 = take 12 buf2 \<and> length buf3 = length buf2"
    by (rule memcpy_keeps_prefix [OF s3]) (simp add: sizeof_note_def)
  have k4: "take 12 buf = take 12 buf3 \<and> length buf = length buf3"
    by (rule memcpy_keeps_prefix [OF s4]) (simp add: sizeof_note_def)
  have "load32 buf 8 = load32 buf2 8"
    by (rule load32_cong_take) (use k3 k4 in simp_all)
  with t2 show ?thesis by (simp add: note_type_def)
qed

lemma cstr_at_padded:
  assumes "off = length pre" and "0 < k"
  shows "cstr_at (pre @ take (strlen s) s @ replicate k 0 @ post) off = Inr (take (strlen s) s)"
proof -
  obtain j where k: "k = Suc j" using assms(2) by (cases k) auto
  have "takeWhile (\<lambda>c. c \<noteq> 0) (takeWhile (\<lambda>c. c \<noteq> 0) s @ (0::byte) # (replicate j 0 @ post))
        = takeWhile (\<lambda>c. c \<noteq> 0) (takeWhile (\<lambda>c. c \<noteq> 0) s)"
    by (rule takeWhile_tail) simp
  then show ?thesis
    using assms(1) by (simp add: cstr_at_def take_strlen k)
qed

lemma round_up_gt: "n mod 4 \<noteq> 0 \<Longrightarrow> n < round_up n 4"
  by (simp add: round_up_def; arith)

lemma decode_encode_unaligned:
  assumes m: "round_up (strlen mediatype) 4 < 2 ^ 32"
      and d: "round_up (strlen data) 4 < 2 ^ 32"
      and m4: "strlen mediatype mod 4 \<noteq> 0" and d4: "strlen data mod 4 \<noteq> 0"
  shows "\<exists>buf. encode mediatype data = Inr buf
           \<and> decode buf = Inr (take (strlen mediatype) mediatype, take (strlen data) data)"
proof -
  let ?sm = "strlen mediatype" and ?sd = "strlen data"
  let ?M = "round_up ?sm 4" and ?D = "round_up ?sd 4"
  let ?hdr = "store32 (pad4 (of_nat ?sm)) @ store32 (pad4 (of_nat ?sd)) @ replicate 4 (0::byte)"
  let ?name = "take ?sm mediatype @ replicate (?M - ?sm) (0::byte)"
  let ?desc = "take ?sd data @ replicate (?D - ?sd) (0::byte)"
  let ?buf = "?hdr @ ?name @ ?desc"
  have enc: "encode mediatype data = Inr ?buf"
    using encode_in_range [OF m d] by simp
  have lh: "length ?hdr = sizeof_note"
    by (simp add: length_store32 sizeof_note_def)
  have ln: "length ?name = ?M"
    using round_up_ge [of ?sm] strlen_le [of mediatype] by (simp add: min_def)
  have nsz: "note_namesz ?buf = Inr (pad4 (of_nat ?sm))"
    unfolding note_namesz_def using load32_store32 [of 0 "[]"] by simp
  have l: "sizeof_note + ?M = length (?hdr @ ?name)"
    using lh ln by (simp only: length_append)
  have "cstr_at ((?hdr @ ?name) @ take ?sd data @ replicate (?D - ?sd) 0 @ []) (sizeof_note + ?M)
        = Inr (take ?sd data)"
    by (rule cstr_at_padded [OF l]) (use round_up_gt [OF d4] in simp)
  then have cd: "cstr_at ?buf (sizeof_note + ?M) = Inr (take ?sd data)" by simp
  have "cstr_at (?hdr @ take ?sm mediatype @ replicate (?M - ?sm) 0 @ ?desc) sizeof_note
        = Inr (take ?sm mediatype)"
    by (rule cstr_at_padded [OF lh [symmetric]]) (use round_up_gt [OF m4] in simp)
  then have cn: "cstr_at ?buf sizeof_note = Inr (take ?sm mediatype)" by simp
  have "decode ?buf = Inr (take ?sm mediatype, take ?sd data)"
    unfolding decode_def by (simp only: nsz sum.case pad4_of_nat [OF m] cd cn)
  with enc show ?thesis by blast
qed

lemma replicate_numeral: "replicate (numeral k) x = x # replicate (pred_numeral k) x"
  by (simp add: numeral_eq_Suc)

lemmas eval_note = replicate_numeral encode_def note_bufsize_def pad4_def strlen_def sizeof_note_def calloc_def
  memcpy_def store32_def bytes_def decode_def note_namesz_def note_descsz_def note_type_def
  load32_def cstr_at_def print_note_def round_up_def


lemma mod_le_diff:
  fixes r :: nat
  assumes "m \<le> r" 
  shows "r mod m \<le> r - m"
  using assms by (metis le_mod_geq mod_less_eq_dividend)

lemma fits_word_self:
  assumes "n \<le> round_up n 4 mod 2 ^ 32"
  shows "round_up n 4 < 2 ^ 32"
proof (rule ccontr)
  assume "\<not> round_up n 4 < 2 ^ 32"
  then have ge: "(2::nat) ^ 32 \<le> round_up n 4" by simp
  have "round_up n 4 mod 2 ^ 32 \<le> round_up n 4 - 2 ^ 32"
    using ge by (rule mod_le_diff)
  with assms have "n \<le> round_up n 4 - 2 ^ 32" by simp
  moreover have "round_up n 4 < n + 4" by (simp add: round_up_def; arith)
  ultimately show False using ge by simp
qed

lemma fits_word_with:
  assumes "n \<le> round_up n 4 mod 2 ^ 32 + round_up k 4" and "round_up k 4 < 2 ^ 32"
  shows "round_up n 4 < 2 ^ 32"
proof (rule ccontr)
  assume "\<not> round_up n 4 < 2 ^ 32"
  then have ge: "(2::nat) ^ 32 \<le> round_up n 4" by simp
  have "round_up n 4 mod 2 ^ 32 \<le> round_up n 4 - 2 ^ 32"
    using ge by (rule mod_le_diff)
  moreover have "round_up k 4 + 4 \<le> 2 ^ 32"
    using assms(2) round_up_dvd [of k] by (auto simp add: dvd_def)
  moreover have "round_up n 4 < n + 4" by (simp add: round_up_def; arith)
  ultimately show False using ge assms(1) by simp
qed

lemma memcpy_length:
  "memcpy dst off src n = Inr r \<Longrightarrow> length r = length dst \<and> off + n \<le> length dst"
  by (auto simp add: memcpy_def split: if_splits)

lemma encode_defined:
  assumes "encode mediatype data = Inr buf"
  shows "round_up (strlen mediatype) 4 < 2 ^ 32 \<and> round_up (strlen data) 4 < 2 ^ 32"
proof -
  let ?mtlen = "pad4 (of_nat (strlen mediatype))" and ?dlen = "pad4 (of_nat (strlen data))"
  let ?n = "note_bufsize mediatype data"
  from assms obtain buf1 buf2 buf3 where
    s1: "memcpy (calloc ?n) 0 (store32 ?mtlen) 4 = Inr buf1" and
    s2: "memcpy buf1 4 (store32 ?dlen) 4 = Inr buf2" and
    s3: "memcpy buf2 (sizeof_note + unat ?mtlen) data (strlen data) = Inr buf3" and
    s4: "memcpy buf3 sizeof_note mediatype (strlen mediatype) = Inr buf"
    by (auto simp add: encode_def Let_def split: sum.splits)
  have l2: "length buf2 = ?n"
    using memcpy_length [OF s1] memcpy_length [OF s2] by (simp add: calloc_def)
  have l3: "length buf3 = ?n"
    using memcpy_length [OF s3] l2 by simp
  have d: "strlen data \<le> unat ?dlen"
    using memcpy_length [OF s3] l2 by (simp add: note_bufsize_def)
  have m: "strlen mediatype \<le> unat ?mtlen + unat ?dlen"
    using memcpy_length [OF s4] l3 by (simp add: note_bufsize_def)
  have fd: "round_up (strlen data) 4 < 2 ^ 32"
    using d unfolding unat_pad4 by (rule fits_word_self)
  then have "unat ?dlen = round_up (strlen data) 4"
    by (simp add: unat_pad4)
  with m have "strlen mediatype \<le> round_up (strlen mediatype) 4 mod 2 ^ 32 + round_up (strlen data) 4"
    by (simp add: unat_pad4)
  then have "round_up (strlen mediatype) 4 < 2 ^ 32"
    using fd by (rule fits_word_with)
  with fd show ?thesis by simp
qed

lemma encode_padding_in_range:
  assumes m: "round_up (strlen mediatype) 4 < 2 ^ 32"
      and d: "round_up (strlen data) 4 < 2 ^ 32"
  shows "\<exists>buf. encode mediatype data = Inr buf
          \<and> length buf = sizeof_note + round_up (strlen mediatype) 4 + round_up (strlen data) 4
          \<and> (\<exists>namesz descsz.
                note_namesz buf = Inr namesz \<and> unat namesz = round_up (strlen mediatype) 4
              \<and> note_descsz buf = Inr descsz \<and> unat descsz = round_up (strlen data) 4
              \<and> 4 dvd unat namesz \<and> 4 dvd unat descsz)
          \<and> (\<forall>i. strlen mediatype \<le> i \<and> i < round_up (strlen mediatype) 4
                 \<longrightarrow> buf ! (sizeof_note + i) = 0)
          \<and> (\<forall>i. strlen data \<le> i \<and> i < round_up (strlen data) 4
                 \<longrightarrow> buf ! (sizeof_note + round_up (strlen mediatype) 4 + i) = 0)"
proof -
  let ?sm = "strlen mediatype" and ?sd = "strlen data"
  let ?M = "round_up ?sm 4" and ?D = "round_up ?sd 4"
  let ?hdr = "store32 (pad4 (of_nat ?sm)) @ store32 (pad4 (of_nat ?sd)) @ replicate 4 (0::byte)"
  let ?name = "take ?sm mediatype @ replicate (?M - ?sm) (0::byte)"
  let ?desc = "take ?sd data @ replicate (?D - ?sd) (0::byte)"
  let ?buf = "?hdr @ ?name @ ?desc"
  have enc: "encode mediatype data = Inr ?buf"
    using encode_in_range [OF m d] by simp
  have lh: "length ?hdr = sizeof_note"
    by (simp add: length_store32 sizeof_note_def)
  have ln: "length ?name = ?M"
    using round_up_ge [of ?sm] strlen_le [of mediatype] by (simp add: min_def)
  have ld: "length ?desc = ?D"
    using round_up_ge [of ?sd] strlen_le [of data] by (simp add: min_def)
  have len: "length ?buf = sizeof_note + ?M + ?D"
    using lh ln ld by (simp only: length_append)
  have nsz: "note_namesz ?buf = Inr (pad4 (of_nat ?sm))"
    unfolding note_namesz_def using load32_store32 [of 0 "[]"] by simp
  have dsz: "note_descsz ?buf = Inr (pad4 (of_nat ?sd))"
    unfolding note_descsz_def
    using load32_store32 [of 4 "store32 (pad4 (of_nat ?sm))" "pad4 (of_nat ?sd)"]
    by (simp add: length_store32)
  have pn: "\<forall>i. ?sm \<le> i \<and> i < ?M \<longrightarrow> ?buf ! (sizeof_note + i) = 0"
  proof (intro allI impI)
    fix i assume i: "?sm \<le> i \<and> i < ?M"
    have "(?hdr @ take ?sm mediatype @ replicate (?M - ?sm) 0 @ ?desc) ! (sizeof_note + i) = 0"
      by (rule nth_pad [OF lh length_take_strlen]) (use i in simp_all)
    then show "?buf ! (sizeof_note + i) = 0" by simp
  qed
  have pd: "\<forall>i. ?sd \<le> i \<and> i < ?D \<longrightarrow> ?buf ! (sizeof_note + ?M + i) = 0"
  proof (intro allI impI)
    fix i assume i: "?sd \<le> i \<and> i < ?D"
    have l: "length (?hdr @ ?name) = sizeof_note + ?M"
      using lh ln by (simp only: length_append)
    have "((?hdr @ ?name) @ take ?sd data @ replicate (?D - ?sd) 0 @ []) ! (sizeof_note + ?M + i) = 0"
      by (rule nth_pad [OF l length_take_strlen]) (use i in simp_all)
    then show "?buf ! (sizeof_note + ?M + i) = 0" by simp
  qed
  have fields: "\<exists>namesz descsz.
                note_namesz ?buf = Inr namesz \<and> unat namesz = ?M
              \<and> note_descsz ?buf = Inr descsz \<and> unat descsz = ?D
              \<and> 4 dvd unat namesz \<and> 4 dvd unat descsz"
    using nsz dsz pad4_of_nat [OF m] pad4_of_nat [OF d] round_up_dvd [of ?sm] round_up_dvd [of ?sd]
    by (intro exI [of _ "pad4 (of_nat ?sm)"] exI [of _ "pad4 (of_nat ?sd)"])
       (simp only: simp_thms)
  from enc len fields pn pd show ?thesis
    by (intro exI [of _ ?buf]) (simp only: simp_thms)
qed


lemma decode_encode_aligned_data:
  "encode (bytes ''abc'') (bytes ''hell'')
     = Inr ([4, 0, 0, 0, 4, 0, 0, 0, 0, 0, 0, 0] @ bytes ''abc'' @ [0] @ bytes ''hell'')
   \<and> decode ([4, 0, 0, 0, 4, 0, 0, 0, 0, 0, 0, 0] @ bytes ''abc'' @ [0] @ bytes ''hell'')
     = Inl OutOfBounds"
  by (simp add: eval_note)

section \<open>Facts about the container\<close>

lemma Max_insert_max:
  fixes a b :: "'a::linorder"
  assumes "finite S"
  shows "Max (insert (max a b) S) = Max (insert a (insert b S))"
  using assms by (cases "S = {}") (simp_all add: max.assoc)

lemma last_offset_loop_Max:
  "last_offset_loop ss acc
   = Max (insert acc ((\<lambda>s. sh_offset s + sh_size s) ` {s \<in> set ss. sh_type s \<noteq> SHT_NOBITS}))"
proof (induction ss arbitrary: acc)
  case Nil
  then show ?case by simp
next
  case (Cons s ss)
  let ?f = "\<lambda>s. sh_offset s + sh_size s"
  let ?S = "?f ` {t \<in> set ss. sh_type t \<noteq> SHT_NOBITS}"
  have fin: "finite ?S" by simp
  show ?case
  proof (cases "sh_type s \<noteq> SHT_NOBITS")
    case True
    then have set: "?f ` {t \<in> set (s # ss). sh_type t \<noteq> SHT_NOBITS} = insert (?f s) ?S"
      by auto
    have "last_offset_loop (s # ss) acc = Max (insert (max acc (?f s)) ?S)"
      using True Cons.IH [of "if acc < ?f s then ?f s else acc"]
      by (simp add: max_def not_less)
    also have "\<dots> = Max (insert acc (insert (?f s) ?S))"
      using fin by (rule Max_insert_max)
    finally show ?thesis by (simp only: set)
  next
    case False
    then have set: "?f ` {t \<in> set (s # ss). sh_type t \<noteq> SHT_NOBITS} = ?S"
      by auto
    show ?thesis
      using False Cons.IH [of acc] by (simp only: set last_offset_loop.simps) simp
  qed
qed


lemma last_offset_loop_ge:
  assumes "s \<in> set ss" and "sh_type s \<noteq> SHT_NOBITS"
  shows "sh_offset s + sh_size s \<le> last_offset_loop ss acc"
  unfolding last_offset_loop_Max using assms by (intro Max_ge) auto


lemma add_result:
  assumes "add e mediatype data = Inr e'"
  shows "\<exists>buf name_off e1.
           encode mediatype data = Inr buf
         \<and> find_or_add_strtab_ref e = Inr (name_off, e1)
         \<and> e' = e1\<lparr>scns := scns e1 @ [reference_scn name_off (compute_append_offset e1) buf
                                         (note_bufsize mediatype data)],
                   e_shoff := compute_append_offset e1 + of_nat (note_bufsize mediatype data)\<rparr>"
  using assms
  by (auto simp add: add_def Let_def reference_scn_def null_scn_def null_data_def split: sum.splits)

lemma end_no_wrap:
  assumes "scn_end s < 2 ^ 64"
  shows "unat (sh_offset s + sh_size s) = scn_end s"
  using assms unfolding scn_end_def by (simp add: unat_add_lem [THEN iffD1])


lemma overlap_iff_common_position:
  "overlap a b \<longleftrightarrow> {scn_start a ..< scn_end a} \<inter> {scn_start b ..< scn_end b} \<noteq> {}"
proof
  assume "overlap a b"
  then have "max (scn_start a) (scn_start b) \<in> {scn_start a ..< scn_end a} \<inter> {scn_start b ..< scn_end b}"
    by (auto simp add: overlap_def)
  then show "{scn_start a ..< scn_end a} \<inter> {scn_start b ..< scn_end b} \<noteq> {}"
    by blast
next
  assume "{scn_start a ..< scn_end a} \<inter> {scn_start b ..< scn_end b} \<noteq> {}"
  then obtain x where "x \<in> {scn_start a ..< scn_end a}" "x \<in> {scn_start b ..< scn_end b}"
    by blast
  then show "overlap a b"
    by (auto simp add: overlap_def)
qed

lemma strlen_REF: "strlen REFERENCE_SECTION_NAME = 10"
  by (simp add: strlen_def REFERENCE_SECTION_NAME_def bytes_def)

lemma length_REF: "length REFERENCE_SECTION_NAME = 10"
  by (simp add: REFERENCE_SECTION_NAME_def bytes_def)

lemma find_ref_none:
  assumes "list_all (\<lambda>s. scn_name e s \<noteq> None) ss"
      and "\<not> list_ex (\<lambda>s. scn_name e s = Some REFERENCE_SECTION_NAME) ss"
  shows "find_ref e ss = Inr None"
  using assms by (induction ss) (auto split: option.splits)

lemma find_ref_some:
  assumes "list_all (\<lambda>s. scn_name e s \<noteq> None) ss"
      and "list_ex (\<lambda>s. scn_name e s = Some REFERENCE_SECTION_NAME) ss"
  shows "\<exists>s \<in> set ss. scn_name e s = Some REFERENCE_SECTION_NAME
            \<and> find_ref e ss = Inr (Some (sh_name s))"
  using assms by (induction ss) (auto split: option.splits)

lemma find_or_add_found:
  assumes "uses_ref e" and "names_readable e"
  shows "\<exists>s \<in> set (scns e). scn_name e s = Some REFERENCE_SECTION_NAME
            \<and> find_or_add_strtab_ref e = Inr (sh_name s, e)"
proof -
  from find_ref_some [of e "scns e"] assms obtain s where
    "s \<in> set (scns e)" "scn_name e s = Some REFERENCE_SECTION_NAME"
    "find_ref e (scns e) = Inr (Some (sh_name s))"
    unfolding uses_ref_def names_readable_def by blast
  then show ?thesis
    by (auto simp add: find_or_add_strtab_ref_def)
qed

lemma find_or_add_not_found:
  assumes "\<not> uses_ref e" and "names_readable e"
  shows "find_or_add_strtab_ref e = extend_strtab e"
  using find_ref_none [of e "scns e"] assms
  by (simp add: find_or_add_strtab_ref_def uses_ref_def names_readable_def)



lemma extend_strtab_result:
  assumes s: "elf_getscn e (unat (e_shstrndx e)) = Some s"
      and d: "elf_getdata s = Some d"
      and fits: "data_valid d"
      and small: "d_size d < 2 ^ 32"
  shows "extend_strtab e =
         Inr (of_nat (d_size d), e\<lparr>scns := (scns e)[unat (e_shstrndx e) - 1 := grown_scn s d]\<rparr>)"
proof -
  let ?raw = "buffer_of d"
  have fits': "d_size d \<le> length ?raw" using fits by (simp add: data_valid_def)
  let ?n = "d_size d"
  have off: "unat (of_nat ?n :: 32 word) = ?n"
    using small by (simp add: unat_of_nat)
  have c1: "memcpy (calloc (?n + 10 + 1)) 0 ?raw ?n = Inr (take ?n ?raw @ replicate 11 0)"
    using memcpy_fill [of ?n ?raw "11 + ?n" 0 "[]" "[]"] fits'
    by (simp add: calloc_def)
  have c2: "memcpy (take ?n ?raw @ replicate 11 0) ?n (REFERENCE_SECTION_NAME @ [0]) (10 + 1)
            = Inr (take ?n ?raw @ REFERENCE_SECTION_NAME @ [0])"
    using memcpy_fill [of 11 "REFERENCE_SECTION_NAME @ [0]" 11 ?n "take ?n ?raw" "[]"] fits'
    by (simp add: length_REF)
  show ?thesis
    unfolding extend_strtab_def Let_def
    by (simp only: s d option.case off strlen_REF c1 c2 sum.case)
       (simp add: grown_scn_def grown_data_def data_bytes_def length_REF)
qed

lemma strtab_data_grown:
  assumes s: "elf_getscn e (unat (e_shstrndx e)) = Some s" and d: "elf_getdata s = Some d"
  shows "elf_getscn (e\<lparr>scns := (scns e)[unat (e_shstrndx e) - 1 := grown_scn s d]\<rparr>)
           (unat (e_shstrndx e)) = Some (grown_scn s d)"
proof -
  have "unat (e_shstrndx e) \<noteq> 0"
    using s d by (auto simp add: elf_getscn_def elf_getdata_def null_scn_def split: if_splits)
  moreover from this have "unat (e_shstrndx e) \<le> length (scns e)"
    using s by (auto simp add: elf_getscn_def split: if_splits)
  ultimately show ?thesis
    by (simp add: elf_getscn_def)
qed

lemma find_or_add_extends:
  assumes nu: "\<not> uses_ref e" and nr: "names_readable e"
      and sd: "strtab_data e = Some d" and v: "data_valid d" and small: "d_size d < 2 ^ 32"
  shows "\<exists>s. elf_getscn e (unat (e_shstrndx e)) = Some s \<and> elf_getdata s = Some d
           \<and> find_or_add_strtab_ref e
               = Inr (of_nat (d_size d),
                      e\<lparr>scns := (scns e)[unat (e_shstrndx e) - 1 := grown_scn s d]\<rparr>)
           \<and> strtab_data (e\<lparr>scns := (scns e)[unat (e_shstrndx e) - 1 := grown_scn s d]\<rparr>)
               = Some (grown_data d)"
proof -
  from sd obtain s where s: "elf_getscn e (unat (e_shstrndx e)) = Some s" and d: "elf_getdata s = Some d"
    by (auto simp add: strtab_data_def split: option.splits)
  have "find_or_add_strtab_ref e
        = Inr (of_nat (d_size d), e\<lparr>scns := (scns e)[unat (e_shstrndx e) - 1 := grown_scn s d]\<rparr>)"
    using find_or_add_not_found [OF nu nr] extend_strtab_result [OF s d v small] by simp
  moreover have "strtab_data (e\<lparr>scns := (scns e)[unat (e_shstrndx e) - 1 := grown_scn s d]\<rparr>)
               = Some (grown_data d)"
    using strtab_data_grown [OF s d]
    by (simp add: strtab_data_def elf_getdata_def grown_scn_def)
  ultimately show ?thesis using s d by blast
qed







lemma find_ref_error:
  "find_ref e ss = Inl err \<Longrightarrow> err = Errx ''reading section name''"
  by (induction ss) (auto split: option.splits if_splits)

lemma find_ref_used:
  "list_ex (\<lambda>s. scn_name e s = Some REFERENCE_SECTION_NAME) ss \<Longrightarrow> find_ref e ss \<noteq> Inr None"
  by (induction ss) (auto split: option.splits if_splits)

lemma find_or_add_used:
  assumes "uses_ref e"
  shows "(\<exists>off. find_or_add_strtab_ref e = Inr (off, e))
       \<or> find_or_add_strtab_ref e = Inl (Errx ''reading section name'')"
proof (cases "find_ref e (scns e)")
  case (Inl err)
  then show ?thesis
    using find_ref_error [OF Inl] by (simp add: find_or_add_strtab_ref_def)
next
  case (Inr r)
  with find_ref_used [of e "scns e"] assms obtain off where "r = Some off"
    by (cases r) (auto simp add: uses_ref_def)
  with Inr show ?thesis
    by (simp add: find_or_add_strtab_ref_def)
qed

lemma find_ref_named:
  "find_ref e ss = Inr (Some off) \<Longrightarrow>
   \<exists>s \<in> set ss. scn_name e s = Some REFERENCE_SECTION_NAME \<and> sh_name s = off"
  by (induction ss) (auto split: option.splits if_splits)

lemma find_or_add_unused:
  assumes nu: "\<not> uses_ref e" and r: "find_or_add_strtab_ref e = Inr res"
  shows "extend_strtab e = Inr res"
proof (cases "find_ref e (scns e)")
  case (Inl err)
  with r show ?thesis by (simp add: find_or_add_strtab_ref_def)
next
  case (Inr found)
  show ?thesis
  proof (cases found)
    case None
    with Inr r show ?thesis by (simp add: find_or_add_strtab_ref_def)
  next
    case (Some off)
    with Inr find_ref_named [of e "scns e" off] nu show ?thesis
      by (auto simp add: uses_ref_def list_ex_iff)
  qed
qed

lemma small_of_truncated:
  fixes n :: nat
  assumes "n \<le> n mod 2 ^ 32 + 11"
  shows "n < 2 ^ 32"
proof (rule ccontr)
  assume "\<not> n < 2 ^ 32"
  then have ge: "(2::nat) ^ 32 \<le> n" by simp
  then have "n mod 2 ^ 32 \<le> n - 2 ^ 32" by (rule mod_le_diff)
  with assms ge show False by simp
qed

lemma extend_strtab_defined:
  assumes "extend_strtab e = Inr res"
  shows "\<exists>s d. elf_getscn e (unat (e_shstrndx e)) = Some s \<and> elf_getdata s = Some d
           \<and> data_valid d \<and> d_size d < 2 ^ 32"
proof -
  from assms obtain s d t1 where
    s: "elf_getscn e (unat (e_shstrndx e)) = Some s" and d: "elf_getdata s = Some d" and
    c: "memcpy (calloc (unat (of_nat (d_size d) :: 32 word) + strlen REFERENCE_SECTION_NAME + 1))
          0 (buffer_of d) (d_size d) = Inr t1"
    by (auto simp add: extend_strtab_def Let_def split: option.splits sum.splits)
  from c have "d_size d \<le> d_size d mod 2 ^ 32 + 11" and v: "d_size d \<le> length (buffer_of d)"
    by (auto simp add: memcpy_def calloc_def strlen_REF unat_of_nat split: if_splits)
  then have "d_size d < 2 ^ 32" by (intro small_of_truncated)
  with s d v show ?thesis by (auto simp add: data_valid_def)
qed

lemma find_or_add_used_offset:
  assumes u: "uses_ref e" and r: "find_or_add_strtab_ref e = Inr (off, e')"
  shows "e' = e \<and> (\<exists>s \<in> set (scns e). scn_name e s = Some REFERENCE_SECTION_NAME \<and> sh_name s = off)"
proof (cases "find_ref e (scns e)")
  case (Inl err)
  with r show ?thesis by (simp add: find_or_add_strtab_ref_def)
next
  case (Inr found)
  with find_ref_used [of e "scns e"] u obtain off' where f: "found = Some off'"
    by (cases found) (auto simp add: uses_ref_def)
  with Inr r have "e' = e" "off' = off"
    by (simp_all add: find_or_add_strtab_ref_def)
  with Inr f find_ref_named [of e "scns e" off] show ?thesis by simp
qed

lemma find_or_add_unused_result:
  assumes nu: "\<not> uses_ref e" and ret: "find_or_add_strtab_ref e = Inr (off, e')"
  shows "\<exists>s d. elf_getscn e (unat (e_shstrndx e)) = Some s \<and> elf_getdata s = Some d
           \<and> data_valid d \<and> d_size d < 2 ^ 32 \<and> unat off = d_size d
           \<and> e' = e\<lparr>scns := (scns e)[unat (e_shstrndx e) - 1 := grown_scn s d]\<rparr>
           \<and> strtab_data e = Some d \<and> strtab_data e' = Some (grown_data d)
           \<and> elf_getscn e' (unat (e_shstrndx e')) = Some (grown_scn s d)
           \<and> data_bytes (grown_data d) = data_bytes d @ REFERENCE_SECTION_NAME @ [0]"
proof -
  have ex: "extend_strtab e = Inr (off, e')"
    using find_or_add_unused [OF nu ret] .
  from extend_strtab_defined [OF ex] obtain s d where
    s: "elf_getscn e (unat (e_shstrndx e)) = Some s" "elf_getdata s = Some d" and
    v: "data_valid d" and small: "d_size d < 2 ^ 32"
    by blast
  let ?e' = "e\<lparr>scns := (scns e)[unat (e_shstrndx e) - 1 := grown_scn s d]\<rparr>"
  have r: "off = of_nat (d_size d)" "e' = ?e'"
    using extend_strtab_result [OF s v small] ex by simp_all
  have sd: "strtab_data e = Some d"
    using s by (simp add: strtab_data_def)
  have g: "elf_getscn ?e' (unat (e_shstrndx ?e')) = Some (grown_scn s d)"
    using strtab_data_grown [OF s] by simp
  then have sd': "strtab_data ?e' = Some (grown_data d)"
    by (simp add: strtab_data_def elf_getdata_def grown_scn_def)
  have u: "unat (of_nat (d_size d) :: 32 word) = d_size d"
    using small by (simp add: unat_of_nat)
  have len: "length (data_bytes d) = d_size d"
    using v by (simp add: data_bytes_def data_valid_def)
  have db: "data_bytes (grown_data d) = data_bytes d @ REFERENCE_SECTION_NAME @ [0]"
    using len by (simp add: data_bytes_def grown_data_def buffer_of_def)
  from s v small u sd sd' g db show ?thesis unfolding r by blast
qed

lemma new_section_clear:
  assumes ok: "add e mediatype data = Inr e'"
  shows "scns e' \<noteq> []
       \<and> list_all (\<lambda>s. byte_bearing s \<and> scn_end s < 2 ^ 64 \<longrightarrow> \<not> overlap (last (scns e')) s)
                  (butlast (scns e'))
       \<and> e_shoff e' = sh_offset (last (scns e')) + sh_size (last (scns e'))"
proof -
  from add_result [OF ok] obtain buf name_off e1 where
    e': "e' = e1\<lparr>scns := scns e1 @ [reference_scn name_off (compute_append_offset e1) buf
                                         (note_bufsize mediatype data)],
                   e_shoff := compute_append_offset e1 + of_nat (note_bufsize mediatype data)\<rparr>"
    by blast
  let ?new = "reference_scn name_off (compute_append_offset e1) buf (note_bufsize mediatype data)"
  have l: "last (scns e') = ?new" and b: "butlast (scns e') = scns e1"
    by (simp_all add: e')
  have "\<not> overlap ?new s"
    if s: "s \<in> set (scns e1)" and bb: "byte_bearing s" and nw: "scn_end s < 2 ^ 64" for s
  proof -
    from nw have "scn_end s = unat (sh_offset s + sh_size s)"
      by (simp add: end_no_wrap)
    also have "\<dots> \<le> unat (compute_append_offset e1)"
      using last_offset_loop_ge [OF s, of 0] bb
      by (simp add: compute_append_offset_def byte_bearing_def word_le_nat_alt)
    also have "\<dots> = scn_start ?new"
      by (simp add: scn_start_def reference_scn_def)
    finally show ?thesis
      by (simp add: overlap_def)
  qed
  then have "list_all (\<lambda>s. byte_bearing s \<and> scn_end s < 2 ^ 64 \<longrightarrow> \<not> overlap (last (scns e')) s)
               (butlast (scns e'))"
    unfolding l b by (simp add: list_all_iff)
  moreover have "e_shoff e' = sh_offset (last (scns e')) + sh_size (last (scns e'))"
    unfolding l by (simp add: e' reference_scn_def)
  moreover have "scns e' \<noteq> []" by (simp add: e')
  ultimately show ?thesis by blast
qed

lemma overlap_sym: "overlap a b = overlap b a"
  by (auto simp add: overlap_def)

lemma no_overlap_snoc:
  "no_overlap (ss @ [n]) \<longleftrightarrow>
     no_overlap ss \<and> list_all (\<lambda>s. byte_bearing s \<and> byte_bearing n \<longrightarrow> \<not> overlap s n) ss"
  by (induction ss) (auto simp add: list_all_iff)

lemma add_keeps_no_overlap_when_used:
  assumes ok: "add e mediatype data = Inr e'"
      and used: "uses_ref e"
      and inv: "no_overlap (scns e)"
      and nowrap: "list_all (\<lambda>s. byte_bearing s \<longrightarrow> scn_end s < 2 ^ 64) (scns e)"
  shows "no_overlap (scns e')"
proof -
  from add_result [OF ok] obtain buf name_off e1 where
    f: "find_or_add_strtab_ref e = Inr (name_off, e1)" and
    e': "e' = e1\<lparr>scns := scns e1 @ [reference_scn name_off (compute_append_offset e1) buf
                                         (note_bufsize mediatype data)],
                   e_shoff := compute_append_offset e1 + of_nat (note_bufsize mediatype data)\<rparr>"
    by blast
  have e1: "e1 = e"
    using find_or_add_used [OF used] f by auto
  have b: "butlast (scns e') = scns e" and l: "scns e' = scns e @ [last (scns e')]"
    by (simp_all add: e' e1)
  have "list_all (\<lambda>s. byte_bearing s \<longrightarrow> \<not> overlap (last (scns e')) s) (butlast (scns e'))"
    using new_section_clear [OF ok] nowrap unfolding b by (auto simp add: list_all_iff)
  then have "list_all (\<lambda>s. byte_bearing s \<and> byte_bearing (last (scns e')) \<longrightarrow> \<not> overlap s (last (scns e'))) (scns e)"
    unfolding b by (simp add: list_all_iff overlap_sym)
  with inv show ?thesis
    by (subst l) (simp only: no_overlap_snoc simp_thms)
qed

lemmas eval_elf = eval_note
  SHT_NULL_def SHT_STRTAB_def SHT_NOTE_def SHT_NOBITS_def SHT_PROGBITS_def SHF_ALLOC_def
  ELF_T_BYTE_def EV_CURRENT_def REFERENCE_SECTION_NAME_def null_scn_def null_data_def
  buffer_of_def elf_getscn_def elf_getdata_def elf_strptr_def scn_name_def
  find_or_add_strtab_ref_def extend_strtab_def compute_append_offset_def add_def
  read_section_def list_refs_def
  byte_bearing_def scn_start_def scn_end_def overlap_def uses_ref_def names_readable_def
  strtab_data_def data_bytes_def data_valid_def grown_data_def grown_scn_def reference_scn_def
  block_readable_def notes_readable_def block_lines_def section_lines_def
  shstrtab_bytes_def bytes_data_def text_scn_def strtab_scn_def
  elf_tail_def elf_mid_def elf_orphan_def elf_ref_def elf_mid_added_def elf_orphan_grown_def
  elf_nobits_def elf_wrap_def elf_wrap_added_def Let_def

section \<open>The claims\<close>

text \<open>
  C1. The round trip fails when the length of the media type is a multiple of 4: the
  name field then has no padding, so no terminator, and the string read at \<open>n->buf\<close>
  runs on into the description. For the media type \<open>abcd\<close> and the data \<open>hi\<close> the
  name region decodes to \<open>abcdhi\<close>. (When the length of the data is a multiple of 4,
  the description has no terminator either and the read leaves the buffer:
  \<open>decode_encode_aligned_data\<close>. When neither length is a multiple of 4 the round trip
  holds: \<open>decode_encode_unaligned\<close>.)
\<close>

theorem roundtrip_aligned_name:
  "encode (bytes ''abcd'') (bytes ''hi'')
     = Inr ([4, 0, 0, 0, 4, 0, 0, 0, 0, 0, 0, 0] @ bytes ''abcd'' @ bytes ''hi'' @ [0, 0])
   \<and> decode ([4, 0, 0, 0, 4, 0, 0, 0, 0, 0, 0, 0] @ bytes ''abcd'' @ bytes ''hi'' @ [0, 0])
     = Inr (bytes ''abcdhi'', bytes ''hi'')
   \<and> bytes ''abcdhi'' \<noteq> bytes ''abcd''"
  by (simp add: eval_note)




text \<open>
  C3. The invariant is not preserved when the string table has to grow and is not the
  last thing in the file: \<open>find_or_add_strtab_ref\<close> enlarges the table where it
  stands. With the table at \<open>[64, 81)\<close> and a section at \<open>[81, 97)\<close>, \<open>add\<close> leaves
  the table at \<open>[64, 92)\<close>, across the first 11 bytes of its neighbour. (When the
  name is already in use the table does not grow and the invariant is kept:
  \<open>add_keeps_no_overlap_when_used\<close>.)
\<close>

theorem strtab_growth_overlaps:
  "no_overlap (scns elf_mid)
   \<and> add elf_mid (bytes ''text/plain'') (bytes ''hello'') = Inr elf_mid_added
   \<and> \<not> no_overlap (scns elf_mid_added)
   \<and> byte_bearing (scns elf_mid_added ! 0) \<and> byte_bearing (scns elf_mid_added ! 1)
   \<and> overlap (scns elf_mid_added ! 0) (scns elf_mid_added ! 1)
   \<and> scn_start (scns elf_mid_added ! 0) = 64 \<and> scn_end (scns elf_mid_added ! 0) = 92
   \<and> scn_start (scns elf_mid_added ! 1) = 81 \<and> scn_end (scns elf_mid_added ! 1) = 97"
  by (simp add: eval_elf)

text \<open>
  C4. In a container that has a section named by the reserved identifier, whenever
  \<open>find_or_add_strtab_ref\<close> returns, it returns the descriptor unchanged (so the
  contents and the size of the string table too), and a second call on it returns the
  same offset and again changes nothing. It does return when the section names can be
  read; the only other outcome is the fatal error of a section name that cannot be
  read, met before the named section.
\<close>

theorem find_or_add_twice:
  assumes "uses_ref e"
  shows "(names_readable e \<longrightarrow> (\<exists>off. find_or_add_strtab_ref e = Inr (off, e)))
       \<and> (\<forall>off e1. find_or_add_strtab_ref e = Inr (off, e1) \<longrightarrow>
              e1 = e \<and> find_or_add_strtab_ref e1 = Inr (off, e1)
              \<and> strtab_data e1 = strtab_data e)
       \<and> (\<forall>err. find_or_add_strtab_ref e = Inl err \<longrightarrow> err = Errx ''reading section name'')"
proof -
  have a: "\<exists>off. find_or_add_strtab_ref e = Inr (off, e)" if "names_readable e"
    using find_or_add_found [OF assms that] by blast
  have b: "e1 = e \<and> find_or_add_strtab_ref e1 = Inr (off, e1) \<and> strtab_data e1 = strtab_data e"
    if r: "find_or_add_strtab_ref e = Inr (off, e1)" for off e1
  proof -
    from find_or_add_used [OF assms] r have "e1 = e" by auto
    with r show ?thesis by simp
  qed
  have c: "err = Errx ''reading section name''" if "find_or_add_strtab_ref e = Inl err" for err
    using find_or_add_used [OF assms] that by auto
  from a b c show ?thesis by blast
qed

theorem find_or_add_twice_witness:
  "uses_ref elf_ref \<and> names_readable elf_ref
   \<and> find_or_add_strtab_ref elf_ref = Inr (17, elf_ref)"
proof -
  have h: "uses_ref elf_ref" and n: "names_readable elf_ref"
    by (simp_all add: eval_elf)
  from find_or_add_twice [OF h] n obtain off where "find_or_add_strtab_ref elf_ref = Inr (off, elf_ref)"
    by blast
  moreover have "find_or_add_strtab_ref elf_ref = Inr (17, elf_ref)"
    by (simp add: eval_elf)
  ultimately show ?thesis using h n by simp
qed

text \<open>
  C5, as stated, fails: the lookup is by section usage, not by string value. In
  \<open>elf_orphan\<close> the table holds the reserved name at offset 11 and no section is
  named by it; the name is appended again at offset 22 and the table grows from 22 to
  33 bytes.
\<close>

theorem lookup_by_value_counterexample:
  "elf_strptr elf_orphan (unat (e_shstrndx elf_orphan)) 11 = Some REFERENCE_SECTION_NAME
   \<and> map_option d_size (strtab_data elf_orphan) = Some 22
   \<and> find_or_add_strtab_ref elf_orphan = Inr (22, elf_orphan_grown)
   \<and> map_option d_size (strtab_data elf_orphan_grown) = Some 33
   \<and> elf_strptr elf_orphan_grown (unat (e_shstrndx elf_orphan_grown)) 11
       = Some REFERENCE_SECTION_NAME
   \<and> elf_strptr elf_orphan_grown (unat (e_shstrndx elf_orphan_grown)) 22
       = Some REFERENCE_SECTION_NAME"
  by (simp add: eval_elf)

text \<open>
  C5, amended. The lookup is by section usage. When some section is named by the
  reserved identifier, the offset returned is the \<open>sh_name\<close> of such a section and
  nothing changes; when none is, the offset returned is the old size of the table, and
  the name and its terminator have been appended to the table, whose size has grown by
  the length of the name plus 1, whether or not the table already held these bytes.
  The call returns when the section names can be read and, in the second case, the
  table's data is valid and below 4 GiB.
\<close>

theorem find_or_add_by_usage:
  "(uses_ref e \<longrightarrow>
      (\<forall>off e'. find_or_add_strtab_ref e = Inr (off, e') \<longrightarrow>
         e' = e \<and> (\<exists>s \<in> set (scns e). scn_name e s = Some REFERENCE_SECTION_NAME
                       \<and> sh_name s = off)))
   \<and> (\<not> uses_ref e \<longrightarrow>
      (\<forall>off e'. find_or_add_strtab_ref e = Inr (off, e') \<longrightarrow>
         (\<exists>d d'. strtab_data e = Some d \<and> unat off = d_size d
            \<and> strtab_data e' = Some d'
            \<and> data_bytes d' = data_bytes d @ REFERENCE_SECTION_NAME @ [0]
            \<and> d_size d' = d_size d + length REFERENCE_SECTION_NAME + 1)))
   \<and> (names_readable e
        \<and> (uses_ref e \<or> (\<exists>d. strtab_data e = Some d \<and> data_valid d \<and> d_size d < 2 ^ 32))
      \<longrightarrow> (\<exists>off e'. find_or_add_strtab_ref e = Inr (off, e')))"
proof -
  have a: "e' = e \<and> (\<exists>s \<in> set (scns e). scn_name e s = Some REFERENCE_SECTION_NAME
                       \<and> sh_name s = off)"
    if "uses_ref e" "find_or_add_strtab_ref e = Inr (off, e')" for off e'
    using find_or_add_used_offset [OF that] .
  have b: "\<exists>d d'. strtab_data e = Some d \<and> unat off = d_size d
            \<and> strtab_data e' = Some d'
            \<and> data_bytes d' = data_bytes d @ REFERENCE_SECTION_NAME @ [0]
            \<and> d_size d' = d_size d + length REFERENCE_SECTION_NAME + 1"
    if nu: "\<not> uses_ref e" and ret: "find_or_add_strtab_ref e = Inr (off, e')" for off e'
  proof -
    from find_or_add_unused_result [OF nu ret] obtain d where
      "strtab_data e = Some d" "unat off = d_size d" "strtab_data e' = Some (grown_data d)"
      "data_bytes (grown_data d) = data_bytes d @ REFERENCE_SECTION_NAME @ [0]"
      by blast
    moreover have "d_size (grown_data d) = d_size d + length REFERENCE_SECTION_NAME + 1"
      by (simp add: grown_data_def)
    ultimately show ?thesis by blast
  qed
  have c: "\<exists>off e'. find_or_add_strtab_ref e = Inr (off, e')"
    if "names_readable e
        \<and> (uses_ref e \<or> (\<exists>d. strtab_data e = Some d \<and> data_valid d \<and> d_size d < 2 ^ 32))"
  proof (cases "uses_ref e")
    case True
    with that find_or_add_found [of e] show ?thesis by blast
  next
    case False
    with that find_or_add_extends [of e] show ?thesis by blast
  qed
  from a b c show ?thesis by blast
qed

theorem find_or_add_by_usage_witness:
  "names_readable elf_ref \<and> uses_ref elf_ref
   \<and> find_or_add_strtab_ref elf_ref = Inr (17, elf_ref)
   \<and> (\<exists>s \<in> set (scns elf_ref). scn_name elf_ref s = Some REFERENCE_SECTION_NAME \<and> sh_name s = 17)
   \<and> names_readable elf_orphan \<and> \<not> uses_ref elf_orphan
   \<and> find_or_add_strtab_ref elf_orphan = Inr (22, elf_orphan_grown)
   \<and> (\<exists>d d'. strtab_data elf_orphan = Some d \<and> d_size d = 22
          \<and> strtab_data elf_orphan_grown = Some d' \<and> d_size d' = 33)"
proof -
  have h1: "names_readable elf_ref" and u1: "uses_ref elf_ref"
    and r1: "find_or_add_strtab_ref elf_ref = Inr (17, elf_ref)"
    by (simp_all add: eval_elf)
  have h2: "names_readable elf_orphan" and u2: "\<not> uses_ref elf_orphan"
    and r2: "find_or_add_strtab_ref elf_orphan = Inr (22, elf_orphan_grown)"
    by (simp_all add: eval_elf)
  have v: "unat (22 :: 32 word) = 22" "length REFERENCE_SECTION_NAME = 10"
    by (simp_all add: eval_elf)
  have a: "\<exists>s \<in> set (scns elf_ref). scn_name elf_ref s = Some REFERENCE_SECTION_NAME \<and> sh_name s = 17"
    using find_or_add_by_usage [of elf_ref] u1 r1 by blast
  have "\<exists>d d'. strtab_data elf_orphan = Some d \<and> unat (22 :: 32 word) = d_size d
          \<and> strtab_data elf_orphan_grown = Some d'
          \<and> data_bytes d' = data_bytes d @ REFERENCE_SECTION_NAME @ [0]
          \<and> d_size d' = d_size d + length REFERENCE_SECTION_NAME + 1"
    using find_or_add_by_usage [of elf_orphan] u2 r2 by blast
  then have b: "\<exists>d d'. strtab_data elf_orphan = Some d \<and> d_size d = 22
          \<and> strtab_data elf_orphan_grown = Some d' \<and> d_size d' = 33"
    unfolding v by auto
  from h1 u1 r1 a h2 u2 r2 b show ?thesis by blast
qed

text \<open>
  C6. When no section is named by the reserved identifier, whenever
  \<open>find_or_add_strtab_ref\<close> returns, the offset it returns is the previous size of the
  table's buffer; the new buffer is the old contents followed by the name and its
  terminator, so every old byte keeps its offset; and the table section's \<open>sh_size\<close>
  is the new \<open>d_size\<close>. It does return when the section names can be read and the
  table's data is valid and below 4 GiB (the range of the \<open>GElf_Word\<close> that holds the
  offset).
\<close>

theorem find_or_add_appends:
  assumes "\<not> uses_ref e"
  shows "(\<forall>off e'. find_or_add_strtab_ref e = Inr (off, e') \<longrightarrow>
            (\<exists>d s' d'. strtab_data e = Some d \<and> unat off = d_size d
               \<and> elf_getscn e' (unat (e_shstrndx e')) = Some s' \<and> elf_getdata s' = Some d'
               \<and> d_buf d' = Some (data_bytes d @ REFERENCE_SECTION_NAME @ [0])
               \<and> d_size d' = d_size d + length REFERENCE_SECTION_NAME + 1
               \<and> (\<forall>i < d_size d. data_bytes d' ! i = data_bytes d ! i)
               \<and> sh_size s' = of_nat (d_size d')))
       \<and> (names_readable e \<and> (\<exists>d. strtab_data e = Some d \<and> data_valid d \<and> d_size d < 2 ^ 32)
            \<longrightarrow> (\<exists>off e'. find_or_add_strtab_ref e = Inr (off, e')))"
proof -
  have a: "\<exists>d s' d'. strtab_data e = Some d \<and> unat off = d_size d
               \<and> elf_getscn e' (unat (e_shstrndx e')) = Some s' \<and> elf_getdata s' = Some d'
               \<and> d_buf d' = Some (data_bytes d @ REFERENCE_SECTION_NAME @ [0])
               \<and> d_size d' = d_size d + length REFERENCE_SECTION_NAME + 1
               \<and> (\<forall>i < d_size d. data_bytes d' ! i = data_bytes d ! i)
               \<and> sh_size s' = of_nat (d_size d')"
    if ret: "find_or_add_strtab_ref e = Inr (off, e')" for off e'
  proof -
    from find_or_add_unused_result [OF assms ret] obtain s d where
      v: "data_valid d" and u: "unat off = d_size d" and sd: "strtab_data e = Some d" and
      g: "elf_getscn e' (unat (e_shstrndx e')) = Some (grown_scn s d)" and
      db: "data_bytes (grown_data d) = data_bytes d @ REFERENCE_SECTION_NAME @ [0]"
      by blast
    have gd: "elf_getdata (grown_scn s d) = Some (grown_data d)"
      by (simp add: elf_getdata_def grown_scn_def)
    have len: "length (data_bytes d) = d_size d"
      using v by (simp add: data_bytes_def data_valid_def)
    have keep: "\<forall>i < d_size d. data_bytes (grown_data d) ! i = data_bytes d ! i"
      unfolding db using len by (simp add: nth_append)
    have "d_buf (grown_data d) = Some (data_bytes d @ REFERENCE_SECTION_NAME @ [0])"
         "d_size (grown_data d) = d_size d + length REFERENCE_SECTION_NAME + 1"
         "sh_size (grown_scn s d) = of_nat (d_size (grown_data d))"
      by (simp_all add: grown_data_def grown_scn_def)
    with sd u g gd keep show ?thesis by blast
  qed
  have b: "\<exists>off e'. find_or_add_strtab_ref e = Inr (off, e')"
    if "names_readable e \<and> (\<exists>d. strtab_data e = Some d \<and> data_valid d \<and> d_size d < 2 ^ 32)"
    using find_or_add_extends [OF assms] that by blast
  from a b show ?thesis by blast
qed

theorem find_or_add_appends_witness:
  "\<not> uses_ref elf_tail \<and> names_readable elf_tail
   \<and> strtab_data elf_tail = Some (bytes_data shstrtab_bytes)
   \<and> data_valid (bytes_data shstrtab_bytes) \<and> d_size (bytes_data shstrtab_bytes) < 2 ^ 32
   \<and> (\<exists>off e' s' d'. find_or_add_strtab_ref elf_tail = Inr (off, e')
           \<and> unat off = 17
           \<and> elf_getscn e' (unat (e_shstrndx e')) = Some s' \<and> elf_getdata s' = Some d'
           \<and> d_buf d' = Some (shstrtab_bytes @ REFERENCE_SECTION_NAME @ [0])
           \<and> d_size d' = 28
           \<and> sh_size s' = 28)"
proof -
  have h: "\<not> uses_ref elf_tail" and n: "names_readable elf_tail"
    and t: "strtab_data elf_tail = Some (bytes_data shstrtab_bytes)"
    and dv: "data_valid (bytes_data shstrtab_bytes)" "d_size (bytes_data shstrtab_bytes) < 2 ^ 32"
    by (simp_all add: eval_elf)
  have v: "d_size (bytes_data shstrtab_bytes) = 17"
    "data_bytes (bytes_data shstrtab_bytes) = shstrtab_bytes"
    "length REFERENCE_SECTION_NAME = 10"
    by (simp_all add: eval_elf)
  note fa = find_or_add_appends [OF h]
  from fa n t dv obtain off e' where r: "find_or_add_strtab_ref elf_tail = Inr (off, e')"
    by blast
  with fa obtain d s' d' where
    "strtab_data elf_tail = Some d" "unat off = d_size d"
    "elf_getscn e' (unat (e_shstrndx e')) = Some s'" "elf_getdata s' = Some d'"
    "d_buf d' = Some (data_bytes d @ REFERENCE_SECTION_NAME @ [0])"
    "d_size d' = d_size d + length REFERENCE_SECTION_NAME + 1"
    "sh_size s' = of_nat (d_size d')"
    by blast
  with t v r have "\<exists>off e' s' d'. find_or_add_strtab_ref elf_tail = Inr (off, e')
           \<and> unat off = 17
           \<and> elf_getscn e' (unat (e_shstrndx e')) = Some s' \<and> elf_getdata s' = Some d'
           \<and> d_buf d' = Some (shstrtab_bytes @ REFERENCE_SECTION_NAME @ [0])
           \<and> d_size d' = 28
           \<and> sh_size s' = 28"
    by auto
  with h n t dv show ?thesis by blast
qed

text \<open>
  C7. The append offset is the maximum of \<open>sh_offset + sh_size\<close> (in \<open>GElf_Off\<close>
  arithmetic) over the sections whose type is not \<open>SHT_NOBITS\<close>, and 0 when there is
  no such section.
\<close>

theorem compute_append_offset_is_max:
  "compute_append_offset e
     = Max (insert 0 ((\<lambda>s. sh_offset s + sh_size s) ` {s \<in> set (scns e). sh_type s \<noteq> SHT_NOBITS}))
   \<and> (list_all (\<lambda>s. sh_type s = SHT_NOBITS) (scns e) \<longrightarrow> compute_append_offset e = 0)"
proof -
  have m: "compute_append_offset e
     = Max (insert 0 ((\<lambda>s. sh_offset s + sh_size s) ` {s \<in> set (scns e). sh_type s \<noteq> SHT_NOBITS}))"
    by (simp add: compute_append_offset_def last_offset_loop_Max)
  have "compute_append_offset e = 0" if "list_all (\<lambda>s. sh_type s = SHT_NOBITS) (scns e)"
  proof -
    from that have "{s \<in> set (scns e). sh_type s \<noteq> SHT_NOBITS} = {}"
      by (auto simp add: list_all_iff)
    with m show ?thesis by simp
  qed
  with m show ?thesis by blast
qed

theorem compute_append_offset_is_max_witness:
  "list_all (\<lambda>s. sh_type s = SHT_NOBITS) (scns elf_nobits)
   \<and> compute_append_offset elf_nobits = 0
   \<and> compute_append_offset elf_tail = 97
   \<and> compute_append_offset elf_mid = 97"
proof -
  have h: "list_all (\<lambda>s. sh_type s = SHT_NOBITS) (scns elf_nobits)"
    by (simp add: eval_elf)
  from compute_append_offset_is_max [of elf_nobits] h have "compute_append_offset elf_nobits = 0"
    by blast
  moreover have "compute_append_offset elf_tail = 97" "compute_append_offset elf_mid = 97"
    by (simp_all add: eval_elf)
  ultimately show ?thesis using h by blast
qed

text \<open>
  C8. For all C strings \<open>mediatype\<close> and \<open>data\<close>, the note that \<open>add\<close> builds has
  length \<open>sizeof(struct note) + round_up(len(mediatype), 4) + round_up(len(data), 4)\<close>,
  its \<open>namesz\<close> and \<open>descsz\<close> fields are the two padded lengths, both multiples of 4,
  and every byte of a field past the end of its string is zero. The note is built
  exactly when the two padded lengths fit a \<open>GElf_Word\<close>, the type of \<open>mtlen\<close> and
  \<open>dlen\<close> (beyond that, a \<open>memcpy\<close> leaves the buffer). The length of a C string is
  \<open>strlen\<close>, which is the length of the list when it holds no zero byte
  (\<open>strlen_no_nul\<close>).
\<close>

theorem encode_padding:
  "(\<forall>buf. encode mediatype data = Inr buf \<longrightarrow>
        length buf = sizeof_note + round_up (strlen mediatype) 4 + round_up (strlen data) 4
      \<and> (\<exists>namesz descsz.
            note_namesz buf = Inr namesz \<and> unat namesz = round_up (strlen mediatype) 4
          \<and> note_descsz buf = Inr descsz \<and> unat descsz = round_up (strlen data) 4
          \<and> 4 dvd unat namesz \<and> 4 dvd unat descsz)
      \<and> (\<forall>i. strlen mediatype \<le> i \<and> i < round_up (strlen mediatype) 4
             \<longrightarrow> buf ! (sizeof_note + i) = 0)
      \<and> (\<forall>i. strlen data \<le> i \<and> i < round_up (strlen data) 4
             \<longrightarrow> buf ! (sizeof_note + round_up (strlen mediatype) 4 + i) = 0))
   \<and> ((\<exists>buf. encode mediatype data = Inr buf)
        \<longleftrightarrow> round_up (strlen mediatype) 4 < 2 ^ 32 \<and> round_up (strlen data) 4 < 2 ^ 32)"
proof -
  have a: "length buf = sizeof_note + round_up (strlen mediatype) 4 + round_up (strlen data) 4
      \<and> (\<exists>namesz descsz.
            note_namesz buf = Inr namesz \<and> unat namesz = round_up (strlen mediatype) 4
          \<and> note_descsz buf = Inr descsz \<and> unat descsz = round_up (strlen data) 4
          \<and> 4 dvd unat namesz \<and> 4 dvd unat descsz)
      \<and> (\<forall>i. strlen mediatype \<le> i \<and> i < round_up (strlen mediatype) 4
             \<longrightarrow> buf ! (sizeof_note + i) = 0)
      \<and> (\<forall>i. strlen data \<le> i \<and> i < round_up (strlen data) 4
             \<longrightarrow> buf ! (sizeof_note + round_up (strlen mediatype) 4 + i) = 0)"
    if e: "encode mediatype data = Inr buf" for buf
  proof -
    from encode_defined [OF e] have
      "round_up (strlen mediatype) 4 < 2 ^ 32" "round_up (strlen data) 4 < 2 ^ 32"
      by simp_all
    from encode_padding_in_range [OF this] e show ?thesis by auto
  qed
  have b: "(\<exists>buf. encode mediatype data = Inr buf)
        \<longleftrightarrow> round_up (strlen mediatype) 4 < 2 ^ 32 \<and> round_up (strlen data) 4 < 2 ^ 32"
    using encode_defined encode_in_range by blast
  from a b show ?thesis by blast
qed

theorem encode_padding_witness:
  "round_up (strlen (bytes ''text/plain'')) 4 < 2 ^ 32 \<and> round_up (strlen (bytes ''hello'')) 4 < 2 ^ 32
   \<and> (\<exists>buf namesz descsz. encode (bytes ''text/plain'') (bytes ''hello'') = Inr buf
          \<and> length buf = 12 + 12 + 8
          \<and> note_namesz buf = Inr namesz \<and> unat namesz = 12
          \<and> note_descsz buf = Inr descsz \<and> unat descsz = 8
          \<and> buf ! (12 + 10) = 0 \<and> buf ! (12 + 11) = 0
          \<and> buf ! (12 + 12 + 5) = 0 \<and> buf ! (12 + 12 + 6) = 0 \<and> buf ! (12 + 12 + 7) = 0)"
proof -
  have r: "strlen (bytes ''text/plain'') = 10" "strlen (bytes ''hello'') = 5"
    "round_up 10 4 = 12" "round_up 5 4 = 8"
    by (simp_all add: round_up_def strlen_def bytes_def)
  have h1: "round_up (strlen (bytes ''text/plain'')) 4 < 2 ^ 32"
    by (simp add: round_up_def strlen_def bytes_def)
  have h2: "round_up (strlen (bytes ''hello'')) 4 < 2 ^ 32"
    by (simp add: round_up_def strlen_def bytes_def)
  note t = encode_padding [of "bytes ''text/plain''" "bytes ''hello''"]
  from t h1 h2 obtain buf where e: "encode (bytes ''text/plain'') (bytes ''hello'') = Inr buf"
    by blast
  with t obtain namesz descsz where
    b: "length buf = sizeof_note + 12 + 8"
      "note_namesz buf = Inr namesz" "unat namesz = 12"
      "note_descsz buf = Inr descsz" "unat descsz = 8"
      "\<forall>i. 10 \<le> i \<and> i < 12 \<longrightarrow> buf ! (sizeof_note + i) = 0"
      "\<forall>i. 5 \<le> i \<and> i < 8 \<longrightarrow> buf ! (sizeof_note + 12 + i) = 0"
    unfolding r by blast
  have "buf ! (12 + 10) = 0" "buf ! (12 + 11) = 0" "buf ! (12 + 12 + 5) = 0" "buf ! (12 + 12 + 6) = 0" "buf ! (12 + 12 + 7) = 0"
    using b(6)[rule_format, of 10] b(6)[rule_format, of 11]  b(7)[rule_format, of 5] b(7)[rule_format, of 6] b(7)[rule_format, of 7]
    by (simp_all add: sizeof_note_def)
  with e b h1 h2 show ?thesis
    unfolding sizeof_note_def by blast
qed



text \<open>
  C10. For every media type and every data string, the \<open>type\<close> field of the note that
  \<open>add\<close> builds is 0: the buffer comes zeroed from \<open>calloc\<close> and no copy reaches
  the bytes 8 to 11. The note is built exactly when the padded lengths fit a
  \<open>GElf_Word\<close>.
\<close>

theorem note_type_zero:
  "(\<forall>buf. encode mediatype data = Inr buf \<longrightarrow> note_type buf = Inr 0)
   \<and> ((\<exists>buf. encode mediatype data = Inr buf)
        \<longleftrightarrow> round_up (strlen mediatype) 4 < 2 ^ 32 \<and> round_up (strlen data) 4 < 2 ^ 32)"
  using encode_type_untouched encode_in_range encode_defined by blast


theorem note_type_zero_witness:
  "round_up (strlen (bytes ''text/plain'')) 4 < 2 ^ 32 \<and> round_up (strlen (bytes ''hello'')) 4 < 2 ^ 32
   \<and> (\<exists>buf. encode (bytes ''text/plain'') (bytes ''hello'') = Inr buf \<and> note_type buf = Inr 0)"
proof -
  have h: "round_up (strlen (bytes ''text/plain'')) 4 < 2 ^ 32 \<and> round_up (strlen (bytes ''hello'')) 4 < 2 ^ 32"
    by (simp add: round_up_def strlen_def bytes_def)
  with note_type_zero [of "bytes ''text/plain''" "bytes ''hello''"] show ?thesis
    by blast
qed

end
